theory Spec2Isabelle
  imports Complex_Main
begin

section \<open>The grid navigation environment of gym-safety\<close>

text \<open>
  A shallow embedding of \<^verbatim>\<open>GridNavigationEnv\<close>
  (\<^verbatim>\<open>gym_safety/envs/gridnavigation.py\<close>). The object's fields are a record, every
  method takes the record and returns it updated, and every exception the Python can
  raise is a value: a method returns its outcome together with the state the object (and
  the random source) is left in, also when it raises. Positions are pairs of integers,
  the entries of the zero-initialised float arrays (0.0 and 1.0) are naturals, and the
  probabilities are reals. \<^verbatim>\<open>render\<close> only hands the result of \<^verbatim>\<open>state_to_img\<close> to the
  display libraries and is left out.
\<close>

subsection \<open>Errors, indices and the random sources\<close>

datatype py_error = ValueError | IndexError | KeyError | GymError

text \<open>
  Python and numpy indexing along an axis of length \<open>n\<close>: a negative index counts from
  the end, anything outside \<open>[-n, n)\<close> raises IndexError.
\<close>

definition norm_index :: "int \<Rightarrow> int \<Rightarrow> py_error + nat" where
  "norm_index n i =
     (let j = (if i < 0 then n + i else i)
      in if 0 \<le> j \<and> j < n then Inr (nat j) else Inl IndexError)"

definition py_setitem :: "'a list \<Rightarrow> int \<Rightarrow> 'a \<Rightarrow> py_error + 'a list" where
  "py_setitem xs i v =
     (case norm_index (int (length xs)) i of
        Inl err \<Rightarrow> Inl err
      | Inr k \<Rightarrow> Inr (xs[k := v]))"

text \<open>
  The generators themselves are numpy's. A random source is modelled by the tape of the
  raw values it is going to produce, one cell per call, and a cursor that counts the calls
  made so far; every sequence of outcomes a generator can produce is the reading of some
  tape. \<^verbatim>\<open>randint(low, high)\<close> rejects an empty range with ValueError and otherwise
  returns a value of \<open>[low, high)\<close>; \<^verbatim>\<open>binomial(1, p)\<close> rejects \<open>p\<close> outside \<open>[0, 1]\<close>
  with ValueError and otherwise compares a uniform draw of \<open>[0, 1)\<close> (53 bits, as numpy's
  doubles) with \<open>p\<close>. A rejected call leaves the source as it was.
\<close>

record rng =
  tape :: "nat \<Rightarrow> nat"
  cursor :: nat

definition next_raw :: "rng \<Rightarrow> nat \<times> rng" where
  "next_raw g = (tape g (cursor g), g\<lparr>cursor := Suc (cursor g)\<rparr>)"

definition randint :: "rng \<Rightarrow> int \<Rightarrow> int \<Rightarrow> (py_error + int) \<times> rng" where
  "randint g low high =
     (if high \<le> low then (Inl ValueError, g)
      else (case next_raw g of (r, g') \<Rightarrow> (Inr (low + int r mod (high - low)), g')))"

definition binomial1 :: "rng \<Rightarrow> real \<Rightarrow> (py_error + nat) \<times> rng" where
  "binomial1 g p =
     (if p < 0 \<or> 1 < p then (Inl ValueError, g)
      else (case next_raw g of (r, g') \<Rightarrow>
              (Inr (if real (r mod 9007199254740992) / 9007199254740992 < p then 1 else 0), g')))"

subsection \<open>The data of the environment\<close>

type_synonym pos = "int \<times> int"

type_synonym color = "nat \<times> nat \<times> nat"

datatype space = Discrete nat | Box nat nat "int list"

datatype observation = OneHot "nat list" | Image "color list list"

record env =
  gridsize :: int
  rho :: real
  stochasticity :: real
  cumulat_constraint :: int
  state :: pos
  start_state :: pos
  goal_state :: pos
  img_observation :: bool
  action_space :: space
  observation_space :: space
  art :: "char list list"
  obstacle_states :: "pos list"
  art_img :: "color list list"
  np_random :: rng

definition EMPTY_CHAR :: char where "EMPTY_CHAR = CHR '' ''"

definition OBSTACLE_CHAR :: char where "OBSTACLE_CHAR = CHR ''#''"

definition PLAYER_CHAR :: char where "PLAYER_CHAR = CHR ''P''"

definition GOAL_CHAR :: char where "GOAL_CHAR = CHR ''G''"

definition FG_COLORS :: "char \<rightharpoonup> color" where
  "FG_COLORS =
     [EMPTY_CHAR \<mapsto> (0, 0, 0), GOAL_CHAR \<mapsto> (0, 1, 0),
      PLAYER_CHAR \<mapsto> (1, 0, 0), OBSTACLE_CHAR \<mapsto> (0, 0, 1)]"

definition ACTIONS :: "int \<rightharpoonup> pos" where
  "ACTIONS = [0 \<mapsto> (- 1, 0), 1 \<mapsto> (0, - 1), 2 \<mapsto> (1, 0), 3 \<mapsto> (0, 1)]"

subsection \<open>Grid generation: \<^verbatim>\<open>build_asci_art\<close>\<close>

text \<open>
  The inner loop over \<^verbatim>\<open>col_idx\<close>: one Bernoulli trial per cell, an obstacle where it
  succeeds. The rows are lists of one-character strings in the source, joined and split
  again into characters; they are character lists here.
\<close>

fun fill_row :: "real \<Rightarrow> nat list \<Rightarrow> char list \<Rightarrow> rng \<Rightarrow> (py_error + char list) \<times> rng" where
  "fill_row p [] row g = (Inr row, g)"
| "fill_row p (col_idx # cols) row g =
     (case binomial1 g p of
        (Inl err, g') \<Rightarrow> (Inl err, g')
      | (Inr b, g') \<Rightarrow>
          (if b \<noteq> 0
           then (case py_setitem row (int col_idx) OBSTACLE_CHAR of
                   Inl err \<Rightarrow> (Inl err, g')
                 | Inr row' \<Rightarrow> fill_row p cols row' g')
           else fill_row p cols row g'))"

text \<open>The outer loop over \<^verbatim>\<open>row_idx\<close>, appending each finished row to \<^verbatim>\<open>art\<close>.\<close>

fun fill_rows ::
  "real \<Rightarrow> int \<Rightarrow> nat list \<Rightarrow> char list list \<Rightarrow> rng \<Rightarrow> (py_error + char list list) \<times> rng" where
  "fill_rows p n [] rows g = (Inr rows, g)"
| "fill_rows p n (row_idx # rest) rows g =
     (case fill_row p [0..<nat n] (replicate (nat n) CHR '' '') g of
        (Inl err, g') \<Rightarrow> (Inl err, g')
      | (Inr row, g') \<Rightarrow> fill_rows p n rest (rows @ [row]) g')"

definition build_asci_art :: "rng \<Rightarrow> int \<Rightarrow> real \<Rightarrow> (py_error + char list) \<times> rng" where
  "build_asci_art g n p =
     (case randint g 0 n of
        (Inl err, g1) \<Rightarrow> (Inl err, g1)
      | (Inr alpha, g1) \<Rightarrow>
          (case py_setitem (replicate (nat n) CHR '' '') alpha GOAL_CHAR of
             Inl err \<Rightarrow> (Inl err, g1)
           | Inr first_row \<Rightarrow>
               (case py_setitem (replicate (nat n) CHR '' '') (- 1) PLAYER_CHAR of
                  Inl err \<Rightarrow> (Inl err, g1)
                | Inr last_row \<Rightarrow>
                    (case fill_rows p n [0..<nat (n - 2)] [first_row] g1 of
                       (Inl err, g2) \<Rightarrow> (Inl err, g2)
                     | (Inr rows, g2) \<Rightarrow> (Inr (concat (rows @ [last_row])), g2)))))"

subsection \<open>Configuration: \<^verbatim>\<open>make_game\<close> and \<^verbatim>\<open>get_art_img\<close>\<close>

text \<open>
  \<^verbatim>\<open>reshape((n, n))\<close> raises ValueError unless the array has \<open>n * n\<close> elements (and for a
  negative \<open>n\<close>); the result is the list of its rows.
\<close>

fun chunks :: "nat \<Rightarrow> nat \<Rightarrow> 'a list \<Rightarrow> 'a list list" where
  "chunks 0 w xs = []"
| "chunks (Suc r) w xs = take w xs # chunks r w (drop w xs)"

definition reshape :: "'a list \<Rightarrow> int \<Rightarrow> py_error + 'a list list" where
  "reshape xs n =
     (if 0 \<le> n \<and> int (length xs) = n * n then Inr (chunks (nat n) (nat n) xs)
      else Inl ValueError)"

text \<open>\<^verbatim>\<open>np.argwhere(a == ch)\<close>: the index pairs of the matching cells, in row-major order.\<close>

definition argwhere :: "char list list \<Rightarrow> char \<Rightarrow> pos list" where
  "argwhere a ch =
     concat (map (\<lambda>i. map (\<lambda>j. (int i, int j))
                        (filter (\<lambda>j. a ! i ! j = ch) [0..<length (a ! i)]))
                 [0..<length a])"

definition cell_color :: "char \<Rightarrow> py_error + color" where
  "cell_color ch =
     (if ch = PLAYER_CHAR
      then (case FG_COLORS EMPTY_CHAR of None \<Rightarrow> Inl KeyError | Some c \<Rightarrow> Inr c)
      else (case FG_COLORS ch of None \<Rightarrow> Inl KeyError | Some c \<Rightarrow> Inr c))"

text \<open>The first error of a list of results, or all the values.\<close>

fun collect :: "(py_error + 'a) list \<Rightarrow> py_error + 'a list" where
  "collect [] = Inr []"
| "collect (Inl err # rs) = Inl err"
| "collect (Inr v # rs) = (case collect rs of Inl err \<Rightarrow> Inl err | Inr vs \<Rightarrow> Inr (v # vs))"

definition art_cell :: "char list list \<Rightarrow> nat \<Rightarrow> nat \<Rightarrow> py_error + char" where
  "art_cell a i j =
     (if i < length a \<and> j < length (a ! i) then Inr (a ! i ! j) else Inl IndexError)"

definition get_art_img :: "env \<Rightarrow> py_error + color list list" where
  "get_art_img e =
     collect (map (\<lambda>i. collect (map (\<lambda>j. (case art_cell (art e) i j of
                                              Inl err \<Rightarrow> Inl err
                                            | Inr ch \<Rightarrow> cell_color ch))
                                     [0..<nat (gridsize e)]))
                  [0..<nat (gridsize e)])"

definition make_game :: "env \<Rightarrow> int \<Rightarrow> real \<Rightarrow> real \<Rightarrow> bool \<Rightarrow> (py_error + unit) \<times> env" where
  "make_game e gridsize' rho' stochasticity' img_observation' =
     (let e1 = e\<lparr>gridsize := gridsize', rho := rho', stochasticity := stochasticity'\<rparr>
      in case build_asci_art (np_random e1) gridsize' rho' of
           (Inl err, g) \<Rightarrow> (Inl err, e1\<lparr>np_random := g\<rparr>)
         | (Inr cells, g) \<Rightarrow>
             (let e2 = e1\<lparr>np_random := g\<rparr>
              in case reshape cells gridsize' of
                   Inl err \<Rightarrow> (Inl err, e2)
                 | Inr a \<Rightarrow>
                     (let e3 = e2\<lparr>art := a, img_observation := img_observation',
                                  start_state := (gridsize' - 1, gridsize' - 1)\<rparr>
                      in case argwhere (art e3) GOAL_CHAR of
                           [] \<Rightarrow> (Inl IndexError, e3)
                         | goal # others \<Rightarrow>
                             (let e4 = e3\<lparr>goal_state := goal, state := start_state e3,
                                          obstacle_states := argwhere (art e3) OBSTACLE_CHAR\<rparr>
                              in case get_art_img e4 of
                                   Inl err \<Rightarrow> (Inl err, e4)
                                 | Inr img \<Rightarrow>
                                     (Inr (),
                                      e4\<lparr>art_img := img, action_space := Discrete 4,
                                         observation_space :=
                                           (if img_observation e4
                                            then Box 0 1 [gridsize e4, gridsize e4, 3]
                                            else Box 0 1 [gridsize e4 * gridsize e4])\<rparr>)))))"

subsection \<open>Observations and \<^verbatim>\<open>reset\<close>\<close>

definition state_to_img :: "env \<Rightarrow> py_error + observation" where
  "state_to_img e =
     (case state e of (i, j) \<Rightarrow>
        (case norm_index (int (length (art_img e))) i of
           Inl err \<Rightarrow> Inl err
         | Inr r \<Rightarrow>
             (case norm_index (int (length (art_img e ! r))) j of
                Inl err \<Rightarrow> Inl err
              | Inr c \<Rightarrow>
                  (case FG_COLORS PLAYER_CHAR of
                     None \<Rightarrow> Inl KeyError
                   | Some col \<Rightarrow> Inr (Image ((art_img e)[r := (art_img e ! r)[c := col]]))))))"

definition state_to_oh :: "env \<Rightarrow> py_error + observation" where
  "state_to_oh e =
     (case state e of (state_i, state_j) \<Rightarrow>
        (case norm_index (gridsize e * gridsize e) (state_i * gridsize e + state_j) of
           Inl err \<Rightarrow> Inl err
         | Inr k \<Rightarrow> Inr (OneHot ((replicate (nat (gridsize e * gridsize e)) 0)[k := 1]))))"

definition observe :: "env \<Rightarrow> py_error + observation" where
  "observe e = (if img_observation e then state_to_img e else state_to_oh e)"

definition reset :: "env \<Rightarrow> (py_error + observation) \<times> env" where
  "reset e = (let e' = e\<lparr>state := start_state e\<rparr> in (observe e', e'))"

subsection \<open>The transition: \<^verbatim>\<open>step\<close>\<close>

text \<open>
  \<^verbatim>\<open>step\<close> draws from \<^verbatim>\<open>np.random\<close>, the generator of the numpy module, which belongs to
  the process and not to the environment: it is a second random source, passed in and
  returned beside the environment. \<open>draw_action\<close> is the first statement of \<^verbatim>\<open>step\<close>: the
  Bernoulli trial and, where it succeeds, the draw that replaces the action.
\<close>

record step_result =
  obs :: observation
  reward :: int
  is_done :: bool
  constraint_costs :: "nat list"

definition draw_action :: "real \<Rightarrow> rng \<Rightarrow> int \<Rightarrow> (py_error + int) \<times> rng" where
  "draw_action p glob action =
     (case binomial1 glob p of
        (Inl err, g1) \<Rightarrow> (Inl err, g1)
      | (Inr b, g1) \<Rightarrow> (if b \<noteq> 0 then randint g1 0 4 else (Inr action, g1)))"

definition in_grid :: "int \<Rightarrow> pos \<Rightarrow> bool" where
  "in_grid n p =
     (case p of (new_state_x, new_state_y) \<Rightarrow>
        \<not> (new_state_x < 0 \<or> new_state_x \<ge> n \<or> new_state_y < 0 \<or> new_state_y \<ge> n))"

definition move :: "env \<Rightarrow> pos \<Rightarrow> env" where
  "move e d =
     (let new_state = (fst (state e) + fst d, snd (state e) + snd d)
      in if in_grid (gridsize e) new_state then e\<lparr>state := new_state\<rparr> else e)"

definition step :: "env \<Rightarrow> rng \<Rightarrow> int \<Rightarrow> (py_error + step_result) \<times> env \<times> rng" where
  "step e glob action =
     (case draw_action (stochasticity e) glob action of
        (Inl err, glob') \<Rightarrow> (Inl err, e, glob')
      | (Inr action', glob') \<Rightarrow>
          (case ACTIONS action' of
             None \<Rightarrow> (Inl KeyError, e, glob')
           | Some d \<Rightarrow>
               (let e' = move e d;
                    goal = (state e' = goal_state e');
                    is_done' = goal;
                    reward' = (if goal then 1000 else - 1);
                    costs = (if \<not> goal \<and> state e' \<in> set (obstacle_states e') then [1] else [0])
                in case observe e' of
                     Inl err \<Rightarrow> (Inl err, e', glob')
                   | Inr ob \<Rightarrow>
                       (Inr \<lparr>obs = ob, reward = reward', is_done = is_done',
                             constraint_costs = costs\<rparr>, e', glob'))))"

subsection \<open>Seeding and construction\<close>

text \<open>
  \<^verbatim>\<open>seeding.np_random\<close> is gym's. It raises gym's error for a negative seed, reduces a
  given seed modulo \<open>2^64\<close>, and reads a seed of 8 bytes from the operating system when
  none is given; it returns the generator it creates from that seed, and the seed. \<open>mk\<close>
  stands for the creation of the generator and \<open>entropy\<close> for the bytes read. When it raises,
  the assignment to \<^verbatim>\<open>self.np_random\<close> does not happen.
\<close>

definition create_seed :: "int \<Rightarrow> int option \<Rightarrow> int" where
  "create_seed entropy a = (case a of None \<Rightarrow> entropy | Some v \<Rightarrow> v mod 2 ^ 64)"

definition seeding_np_random ::
  "(int \<Rightarrow> rng) \<Rightarrow> int \<Rightarrow> int option \<Rightarrow> py_error + rng \<times> int" where
  "seeding_np_random mk entropy s =
     (case s of
        Some v \<Rightarrow>
          (if \<not> 0 \<le> v then Inl GymError
           else (let s' = create_seed entropy s in Inr (mk s', s')))
      | None \<Rightarrow> (let s' = create_seed entropy s in Inr (mk s', s')))"

definition seed ::
  "(int \<Rightarrow> rng) \<Rightarrow> int \<Rightarrow> env \<Rightarrow> int option \<Rightarrow> (py_error + int list) \<times> env" where
  "seed mk entropy e s =
     (case seeding_np_random mk entropy s of
        Inl err \<Rightarrow> (Inl err, e)
      | Inr (g, s') \<Rightarrow> (Inr [s'], e\<lparr>np_random := g\<rparr>))"

text \<open>
  The fields of a new object before \<^verbatim>\<open>make_game\<close> has run (None in the source, apart
  from \<^verbatim>\<open>cumulat_constraint\<close>); \<^verbatim>\<open>__init__\<close> seeds with 42, which leaves the generator
  \<open>mk 42\<close> in \<^verbatim>\<open>np_random\<close> (lemma \<open>seed_default\<close>), and builds the default game.
\<close>

definition blank :: "rng \<Rightarrow> env" where
  "blank g =
     \<lparr>gridsize = 0, rho = 0, stochasticity = 0, cumulat_constraint = 0, state = (0, 0),
      start_state = (0, 0), goal_state = (0, 0), img_observation = False,
      action_space = Discrete 0, observation_space = Box 0 0 [], art = [],
      obstacle_states = [], art_img = [], np_random = g\<rparr>"

definition init :: "(int \<Rightarrow> rng) \<Rightarrow> (py_error + unit) \<times> env" where
  "init mk = make_game (blank (mk 42)) 32 (3 / 10) (1 / 10) False"

subsection \<open>Well-formed environments\<close>

text \<open>
  What \<^verbatim>\<open>make_game\<close> establishes and \<^verbatim>\<open>step\<close> and \<^verbatim>\<open>reset\<close> keep: the grid and its
  image are square of side \<^verbatim>\<open>gridsize\<close>, the goal position is the one goal cell of the grid,
  the obstacle list is the list of its obstacle cells, and the agent is on the grid.
\<close>

definition square :: "int \<Rightarrow> 'a list list \<Rightarrow> bool" where
  "square n rows \<longleftrightarrow> length rows = nat n \<and> (\<forall>r\<in>set rows. length r = nat n)"

definition wf_env :: "env \<Rightarrow> bool" where
  "wf_env e \<longleftrightarrow>
     1 \<le> gridsize e \<and> in_grid (gridsize e) (state e) \<and>
     square (gridsize e) (art e) \<and> square (gridsize e) (art_img e) \<and>
     argwhere (art e) GOAL_CHAR = [goal_state e] \<and>
     obstacle_states e = argwhere (art e) OBSTACLE_CHAR"

text \<open>
  A grid of side 3 for the examples: the goal in the middle of row 0, one obstacle in the
  middle of the grid, the agent on its start cell, as \<^verbatim>\<open>make_game\<close> builds it with density
  1/2 from the tape \<open>demo_tape\<close>; and a random source that produces the same raw value at
  every call.
\<close>

definition demo_tape :: "nat \<Rightarrow> nat" where
  "demo_tape i = (if i = 0 then 1 else if i = 2 then 0 else 4503599627370496)"

definition demo :: env where
  "demo =
     \<lparr>gridsize = 3, rho = 1 / 2, stochasticity = 0, cumulat_constraint = 0, state = (2, 2),
      start_state = (2, 2), goal_state = (0, 1), img_observation = False,
      action_space = Discrete 4, observation_space = Box 0 1 [9],
      art = ['' G '', '' # '', ''  P''], obstacle_states = [(1, 1)],
      art_img = [[(0, 0, 0), (0, 1, 0), (0, 0, 0)],
                 [(0, 0, 0), (0, 0, 1), (0, 0, 0)],
                 [(0, 0, 0), (0, 0, 0), (0, 0, 0)]],
      np_random = \<lparr>tape = demo_tape, cursor = 4\<rparr>\<rparr>"

definition const_source :: "nat \<Rightarrow> rng" where
  "const_source v = \<lparr>tape = (\<lambda>i. v), cursor = 0\<rparr>"

section \<open>Properties\<close>

subsection \<open>Indices and the random sources\<close>

lemma norm_index_in: "0 \<le> i \<Longrightarrow> i < n \<Longrightarrow> norm_index n i = Inr (nat i)"
  by (simp add: norm_index_def)

lemma norm_index_last: "0 < n \<Longrightarrow> norm_index n (- 1) = Inr (nat (n - 1))"
  by (simp add: norm_index_def)

lemma py_setitem_in:
  "0 \<le> i \<Longrightarrow> i < int (length xs) \<Longrightarrow> py_setitem xs i v = Inr (xs[nat i := v])"
  by (simp add: py_setitem_def norm_index_in)

lemma py_setitem_nat: "k < length xs \<Longrightarrow> py_setitem xs (int k) v = Inr (xs[k := v])"
  by (simp add: py_setitem_in)

lemma py_setitem_last:
  "xs \<noteq> [] \<Longrightarrow> py_setitem xs (- 1) v = Inr (xs[length xs - 1 := v])"
  by (simp add: py_setitem_def norm_index_last nat_diff_distrib')

lemma randint_bad: "high \<le> low \<Longrightarrow> randint g low high = (Inl ValueError, g)"
  by (simp add: randint_def)

lemma randint_ok:
  assumes "low < high"
  shows "\<exists>r. randint g low high = (Inr r, g\<lparr>cursor := Suc (cursor g)\<rparr>) \<and> low \<le> r \<and> r < high"
proof -
  let ?r = "low + int (tape g (cursor g)) mod (high - low)"
  have "0 \<le> int (tape g (cursor g)) mod (high - low)"
    and "int (tape g (cursor g)) mod (high - low) < high - low"
    using assms by simp_all
  then have "low \<le> ?r" and "?r < high" by linarith+
  moreover have "randint g low high = (Inr ?r, g\<lparr>cursor := Suc (cursor g)\<rparr>)"
    using assms by (simp add: randint_def next_raw_def)
  ultimately show ?thesis by blast
qed

lemma binomial1_bad: "p < 0 \<or> 1 < p \<Longrightarrow> binomial1 g p = (Inl ValueError, g)"
  by (simp add: binomial1_def)

lemma binomial1_ok:
  "0 \<le> p \<Longrightarrow> p \<le> 1 \<Longrightarrow>
   \<exists>b. binomial1 g p = (Inr b, g\<lparr>cursor := Suc (cursor g)\<rparr>) \<and> b \<le> 1"
  by (simp add: binomial1_def next_raw_def)

lemma binomial1_zero: "binomial1 g 0 = (Inr 0, g\<lparr>cursor := Suc (cursor g)\<rparr>)"
  by (simp add: binomial1_def next_raw_def)

lemma binomial1_one: "binomial1 g 1 = (Inr 1, g\<lparr>cursor := Suc (cursor g)\<rparr>)"
proof -
  have "tape g (cursor g) mod 9007199254740992 < 9007199254740992" by simp
  then have "real (tape g (cursor g) mod 9007199254740992) < 9007199254740992"
    by (metis of_nat_less_iff of_nat_numeral)
  then show ?thesis by (simp add: binomial1_def next_raw_def)
qed

lemma fill_row_ok:
  assumes "0 \<le> p" "p \<le> 1"
  shows "\<forall>c\<in>set cols. c < length row \<Longrightarrow>
         \<exists>row' g'. fill_row p cols row g = (Inr row', g') \<and> length row' = length row \<and>
                    set row' \<subseteq> insert OBSTACLE_CHAR (set row)"
proof (induction cols arbitrary: row g)
  case Nil
  then show ?case by auto
next
  case (Cons c cols)
  obtain b where b: "binomial1 g p = (Inr b, g\<lparr>cursor := Suc (cursor g)\<rparr>)"
    using binomial1_ok [OF assms] by blast
  let ?g = "g\<lparr>cursor := Suc (cursor g)\<rparr>"
  show ?case
  proof (cases "b = 0")
    case True
    from Cons.IH [of row ?g] Cons.prems
    show ?thesis by (simp add: b True)
  next
    case False
    let ?row = "row[c := OBSTACLE_CHAR]"
    have c: "c < length row" using Cons.prems by simp
    have "\<forall>c\<in>set cols. c < length ?row" using Cons.prems by simp
    from Cons.IH [OF this, of ?g]
    obtain row' g' where r: "fill_row p cols ?row ?g = (Inr row', g')"
      "length row' = length ?row" "set row' \<subseteq> insert OBSTACLE_CHAR (set ?row)"
      by blast
    have "set ?row \<subseteq> insert OBSTACLE_CHAR (set row)"
      by (rule set_update_subset_insert)
    with r show ?thesis
      using False c by (auto simp: b py_setitem_nat)
  qed
qed

lemma fill_row_bad:
  "p < 0 \<or> 1 < p \<Longrightarrow> cols \<noteq> [] \<Longrightarrow> fill_row p cols row g = (Inl ValueError, g)"
  by (cases cols) (simp_all add: binomial1_bad)

subsection \<open>Grid generation\<close>

lemma fill_rows_ok:
  assumes "idxs = [] \<or> (0 \<le> p \<and> p \<le> 1)"
  shows "\<exists>new g'. fill_rows p n idxs rows g = (Inr (rows @ new), g') \<and>
           length new = length idxs \<and>
           (\<forall>r\<in>set new. length r = nat n \<and> set r \<subseteq> {CHR '' '', OBSTACLE_CHAR})"
  using assms
proof (induction idxs arbitrary: rows g)
  case Nil
  then show ?case by simp
next
  case (Cons i idxs)
  then have p: "0 \<le> p" "p \<le> 1" by simp_all
  have "\<forall>c\<in>set [0..<nat n]. c < length (replicate (nat n) CHR '' '')" by simp
  from fill_row_ok [OF p this, of g]
  obtain row g1 where row: "fill_row p [0..<nat n] (replicate (nat n) CHR '' '') g = (Inr row, g1)"
    "length row = nat n" "set row \<subseteq> insert OBSTACLE_CHAR (set (replicate (nat n) CHR '' ''))"
    by auto
  from Cons.IH [of "rows @ [row]" g1] p
  obtain new g' where new: "fill_rows p n idxs (rows @ [row]) g1 = (Inr ((rows @ [row]) @ new), g')"
    "length new = length idxs"
    "\<forall>r\<in>set new. length r = nat n \<and> set r \<subseteq> {CHR '' '', OBSTACLE_CHAR}"
    by blast
  have "set row \<subseteq> {CHR '' '', OBSTACLE_CHAR}"
    using row(3) by (auto split: if_splits)
  with row new have "fill_rows p n (i # idxs) rows g = (Inr (rows @ (row # new)), g') \<and>
      length (row # new) = length (i # idxs) \<and>
      (\<forall>r\<in>set (row # new). length r = nat n \<and> set r \<subseteq> {CHR '' '', OBSTACLE_CHAR})"
    by simp
  then show ?case by blast
qed

lemma fill_rows_bad:
  "p < 0 \<or> 1 < p \<Longrightarrow> idxs \<noteq> [] \<Longrightarrow> 1 \<le> n \<Longrightarrow>
   fill_rows p n idxs rows g = (Inl ValueError, g)"
  by (cases idxs) (simp_all add: fill_row_bad)

lemma build_asci_art_ok:
  assumes "2 \<le> n" "n = 2 \<or> (0 \<le> p \<and> p \<le> 1)"
  shows "\<exists>alpha mid g'.
           build_asci_art g n p =
             (Inr (concat ((replicate (nat n) CHR '' '')[alpha := GOAL_CHAR] # mid @
                           [(replicate (nat n) CHR '' '')[nat n - 1 := PLAYER_CHAR]])), g') \<and>
           alpha < nat n \<and> length mid = nat n - 2 \<and>
           (\<forall>r\<in>set mid. length r = nat n \<and> set r \<subseteq> {CHR '' '', OBSTACLE_CHAR})"
proof -
  let ?blank = "replicate (nat n) CHR '' ''"
  from assms(1) obtain r where r: "randint g 0 n = (Inr r, g\<lparr>cursor := Suc (cursor g)\<rparr>)"
    "0 \<le> r" "r < n"
    using randint_ok [of 0 n g] by auto
  let ?g1 = "g\<lparr>cursor := Suc (cursor g)\<rparr>"
  have first: "py_setitem ?blank r GOAL_CHAR = Inr (?blank[nat r := GOAL_CHAR])"
    using r by (simp add: py_setitem_in)
  have last: "py_setitem ?blank (- 1) PLAYER_CHAR = Inr (?blank[nat n - 1 := PLAYER_CHAR])"
    using assms(1) py_setitem_last [of ?blank PLAYER_CHAR] by simp
  have "[0..<nat (n - 2)] = [] \<or> (0 \<le> p \<and> p \<le> 1)"
    using assms(2) by auto
  from fill_rows_ok [OF this, of n "[?blank[nat r := GOAL_CHAR]]" ?g1]
  obtain mid g' where mid:
    "fill_rows p n [0..<nat (n - 2)] [?blank[nat r := GOAL_CHAR]] ?g1 =
       (Inr ([?blank[nat r := GOAL_CHAR]] @ mid), g')"
    "length mid = length [0..<nat (n - 2)]"
    "\<forall>r\<in>set mid. length r = nat n \<and> set r \<subseteq> {CHR '' '', OBSTACLE_CHAR}"
    by blast
  have "build_asci_art g n p =
          (Inr (concat (?blank[nat r := GOAL_CHAR] # mid @ [?blank[nat n - 1 := PLAYER_CHAR]])), g')"
    by (simp add: build_asci_art_def r(1) first last mid(1))
  moreover have "nat r < nat n" using r by simp
  moreover have "length mid = nat n - 2" using mid(2) assms(1) by (simp add: nat_diff_distrib')
  ultimately show ?thesis using mid(3) by blast
qed

lemma build_asci_art_nonpositive: "n \<le> 0 \<Longrightarrow> build_asci_art g n p = (Inl ValueError, g)"
  by (simp add: build_asci_art_def randint_bad)

lemma build_asci_art_one:
  "build_asci_art g 1 p = (Inr [GOAL_CHAR, PLAYER_CHAR], g\<lparr>cursor := Suc (cursor g)\<rparr>)"
  by (simp add: build_asci_art_def randint_def next_raw_def py_setitem_def norm_index_def)

lemma build_asci_art_bad_rho:
  assumes "3 \<le> n" "p < 0 \<or> 1 < p"
  shows "build_asci_art g n p = (Inl ValueError, g\<lparr>cursor := Suc (cursor g)\<rparr>)"
proof -
  let ?blank = "replicate (nat n) CHR '' ''"
  from assms(1) obtain r where r: "randint g 0 n = (Inr r, g\<lparr>cursor := Suc (cursor g)\<rparr>)"
    "0 \<le> r" "r < n"
    using randint_ok [of 0 n g] by auto
  have first: "py_setitem ?blank r GOAL_CHAR = Inr (?blank[nat r := GOAL_CHAR])"
    using r by (simp add: py_setitem_in)
  have last: "py_setitem ?blank (- 1) PLAYER_CHAR = Inr (?blank[nat n - 1 := PLAYER_CHAR])"
    using assms(1) py_setitem_last [of ?blank PLAYER_CHAR] by simp
  have "[0..<nat (n - 2)] \<noteq> []" using assms(1) by simp
  then have "fill_rows p n [0..<nat (n - 2)] [?blank[nat r := GOAL_CHAR]]
               (g\<lparr>cursor := Suc (cursor g)\<rparr>) = (Inl ValueError, g\<lparr>cursor := Suc (cursor g)\<rparr>)"
    using assms by (intro fill_rows_bad) simp_all
  then show ?thesis
    by (simp add: build_asci_art_def r(1) first last)
qed

lemma length_concat_rows:
  "\<forall>r\<in>set rows. length r = w \<Longrightarrow> length (concat rows) = length rows * w"
  by (induction rows) simp_all

lemma chunks_concat:
  "\<forall>r\<in>set rows. length r = w \<Longrightarrow> chunks (length rows) w (concat rows) = rows"
  by (induction rows) simp_all

lemma reshape_rows:
  assumes "0 \<le> n" "length rows = nat n" "\<forall>r\<in>set rows. length r = nat n"
  shows "reshape (concat rows) n = Inr rows"
proof -
  have "int (length (concat rows)) = int (nat n * nat n)"
    using length_concat_rows [OF assms(3)] assms(2) by simp
  also have "\<dots> = n * n" using assms(1) by simp
  finally have "int (length (concat rows)) = n * n" .
  moreover have "chunks (nat n) (nat n) (concat rows) = rows"
    using chunks_concat [OF assms(3)] assms(2) by simp
  ultimately show ?thesis using assms(1) by (simp add: reshape_def)
qed

lemma reshape_one: "reshape [a, b] 1 = Inl ValueError"
  by (simp add: reshape_def)

subsection \<open>Reading the grid\<close>

lemma set_argwhere:
  "set (argwhere a ch) =
     {(int i, int j) | i j. i < length a \<and> j < length (a ! i) \<and> a ! i ! j = ch}"
  by (auto simp: argwhere_def)

lemma argwhere_Cons:
  "argwhere (r # rs) ch =
     map (\<lambda>j. (0, int j)) (filter (\<lambda>j. r ! j = ch) [0..<length r]) @
     map (\<lambda>(i, j). (1 + i, j)) (argwhere rs ch)"
proof -
  have "[0..<length (r # rs)] = 0 # map Suc [0..<length rs]"
    by (simp add: upt_conv_Cons map_Suc_upt del: upt_Suc)
  then show ?thesis
    by (simp add: argwhere_def map_concat comp_def del: upt_Suc)
qed

lemma argwhere_absent:
  assumes "\<forall>r\<in>set rs. ch \<notin> set r"
  shows "argwhere rs ch = []"
proof -
  have "p \<notin> set (argwhere rs ch)" for p
  proof
    assume "p \<in> set (argwhere rs ch)"
    then obtain i j where "i < length rs" "j < length (rs ! i)" "rs ! i ! j = ch"
      by (auto simp: set_argwhere)
    then have "rs ! i \<in> set rs" "ch \<in> set (rs ! i)"
      by auto
    with assms show False by blast
  qed
  then show ?thesis by (meson last_in_set)
qed

lemma filter_update_single:
  assumes "k < n" "b \<noteq> c"
  shows "filter (\<lambda>j. (replicate n b)[k := c] ! j = c) [0..<n] = [k]"
proof -
  have "[0..<n] = [0..<k] @ [k..<n]"
    using upt_add_eq_append [of 0 k "n - k"] assms(1) by simp
  moreover have "[k..<n] = k # [Suc k..<n]"
    using assms(1) by (simp add: upt_conv_Cons)
  ultimately have split: "[0..<n] = [0..<k] @ k # [Suc k..<n]" by simp
  have "filter (\<lambda>j. (replicate n b)[k := c] ! j = c) [0..<k] = []"
    using assms by (auto simp: filter_empty_conv nth_list_update)
  moreover have "filter (\<lambda>j. (replicate n b)[k := c] ! j = c) [Suc k..<n] = []"
    using assms by (auto simp: filter_empty_conv nth_list_update)
  ultimately show ?thesis
    using assms by (simp add: split)
qed

lemma collect_map_ok:
  "\<forall>x\<in>set xs. \<exists>v. f x = Inr v \<Longrightarrow>
   \<exists>vs. collect (map f xs) = Inr vs \<and> length vs = length xs \<and>
        (\<forall>k<length xs. f (xs ! k) = Inr (vs ! k))"
proof (induction xs)
  case Nil
  then show ?case by simp
next
  case (Cons x xs)
  then obtain v where v: "f x = Inr v" by auto
  from Cons obtain vs where vs: "collect (map f xs) = Inr vs" "length vs = length xs"
    "\<forall>k<length xs. f (xs ! k) = Inr (vs ! k)" by auto
  have "collect (map f (x # xs)) = Inr (v # vs)" by (simp add: v vs(1))
  moreover have "\<forall>k<length (x # xs). f ((x # xs) ! k) = Inr ((v # vs) ! k)"
    using v vs(3) by (auto simp: nth_Cons split: nat.splits)
  ultimately show ?case using vs(2) by auto
qed

lemma cell_color_known:
  "ch \<in> {CHR '' '', GOAL_CHAR, OBSTACLE_CHAR, PLAYER_CHAR} \<Longrightarrow> \<exists>c. cell_color ch = Inr c"
  by (auto simp: cell_color_def FG_COLORS_def EMPTY_CHAR_def GOAL_CHAR_def OBSTACLE_CHAR_def
      PLAYER_CHAR_def)

lemma collect_map_D:
  "collect (map f xs) = Inr vs \<Longrightarrow>
   length vs = length xs \<and> (\<forall>k<length xs. f (xs ! k) = Inr (vs ! k))"
proof (induction xs arbitrary: vs)
  case Nil
  then show ?case by simp
next
  case (Cons x xs)
  from Cons.prems obtain v ws where v: "f x = Inr v" and ws: "collect (map f xs) = Inr ws"
    and vs: "vs = v # ws"
    by (cases "f x"; cases "collect (map f xs)") auto
  from Cons.IH [OF ws] v vs show ?case
    by (auto simp: nth_Cons split: nat.splits)
qed

lemma get_art_img_ok:
  assumes "square (gridsize e) (art e)"
    and "\<forall>r\<in>set (art e). set r \<subseteq> {CHR '' '', GOAL_CHAR, OBSTACLE_CHAR, PLAYER_CHAR}"
  shows "\<exists>img. get_art_img e = Inr img \<and> square (gridsize e) img \<and>
           (\<forall>i<nat (gridsize e). \<forall>j<nat (gridsize e).
              cell_color (art e ! i ! j) = Inr (img ! i ! j))"
proof -
  let ?m = "nat (gridsize e)"
  let ?f = "\<lambda>i j. (case art_cell (art e) i j of Inl err \<Rightarrow> Inl err | Inr ch \<Rightarrow> cell_color ch)"
  let ?F = "\<lambda>i. collect (map (?f i) [0..<?m])"
  have len: "length (art e) = ?m" and row: "\<And>i. i < ?m \<Longrightarrow> length (art e ! i) = ?m"
    using assms(1) by (auto simp: square_def)
  have cell: "?f i j = cell_color (art e ! i ! j)" if "i < ?m" "j < ?m" for i j
    using that len row by (simp add: art_cell_def)
  have known: "\<exists>c. cell_color (art e ! i ! j) = Inr c" if "i < ?m" "j < ?m" for i j
  proof -
    have "art e ! i \<in> set (art e)" using that len by simp
    moreover have "art e ! i ! j \<in> set (art e ! i)" using that row by simp
    ultimately have "art e ! i ! j \<in> {CHR '' '', GOAL_CHAR, OBSTACLE_CHAR, PLAYER_CHAR}"
      using assms(2) by blast
    then show ?thesis by (rule cell_color_known)
  qed
  have inner: "\<exists>v. ?F i = Inr v" if "i < ?m" for i
  proof -
    have "\<forall>j\<in>set [0..<?m]. \<exists>v. ?f i j = Inr v"
      using cell known that by simp
    from collect_map_ok [OF this] show ?thesis by blast
  qed
  then have "\<forall>i\<in>set [0..<?m]. \<exists>v. ?F i = Inr v" by simp
  from collect_map_ok [OF this]
  obtain img where img: "collect (map ?F [0..<?m]) = Inr img" "length img = ?m"
    "\<forall>k<?m. ?F ([0..<?m] ! k) = Inr (img ! k)"
    by auto
  have rows: "length (img ! i) = ?m \<and> (\<forall>j<?m. cell_color (art e ! i ! j) = Inr (img ! i ! j))"
    if "i < ?m" for i
  proof -
    have "?F i = Inr (img ! i)" using img(3) that by simp
    from collect_map_D [OF this] cell that show ?thesis by simp
  qed
  have "square (gridsize e) img"
    using img(2) rows by (auto simp: square_def in_set_conv_nth)
  moreover have "get_art_img e = Inr img"
    using img(1) by (simp add: get_art_img_def)
  ultimately show ?thesis using rows by blast
qed

subsection \<open>Configuration\<close>

lemma goal_row_argwhere:
  assumes "alpha < m" "\<forall>r\<in>set rest. GOAL_CHAR \<notin> set r"
  shows "argwhere ((replicate m CHR '' '')[alpha := GOAL_CHAR] # rest) GOAL_CHAR = [(0, int alpha)]"
proof -
  have "CHR '' '' \<noteq> GOAL_CHAR" by (simp add: GOAL_CHAR_def)
  from filter_update_single [OF assms(1) this]
  show ?thesis
    by (simp add: argwhere_Cons argwhere_absent [OF assms(2)])
qed

lemma make_game_ok:
  assumes "2 \<le> n" "n = 2 \<or> (0 \<le> p \<and> p \<le> 1)"
  shows "\<exists>e' alpha mid.
           make_game e n p st im = (Inr (), e') \<and>
           alpha < nat n \<and> length mid = nat n - 2 \<and>
           (\<forall>r\<in>set mid. length r = nat n \<and> set r \<subseteq> {CHR '' '', OBSTACLE_CHAR}) \<and>
           art e' = (replicate (nat n) CHR '' '')[alpha := GOAL_CHAR] # mid @
                    [(replicate (nat n) CHR '' '')[nat n - 1 := PLAYER_CHAR]] \<and>
           gridsize e' = n \<and> rho e' = p \<and> stochasticity e' = st \<and> img_observation e' = im \<and>
           start_state e' = (n - 1, n - 1) \<and> state e' = (n - 1, n - 1) \<and>
           goal_state e' = (0, int alpha) \<and>
           argwhere (art e') GOAL_CHAR = [goal_state e'] \<and>
           obstacle_states e' = argwhere (art e') OBSTACLE_CHAR \<and>
           square n (art_img e') \<and>
           (\<forall>i<nat n. \<forall>j<nat n. cell_color (art e' ! i ! j) = Inr (art_img e' ! i ! j)) \<and>
           cumulat_constraint e' = cumulat_constraint e"
proof -
  let ?m = "nat n"
  let ?blank = "replicate ?m CHR '' ''"
  from build_asci_art_ok [OF assms, of "np_random e"]
  obtain alpha mid g' where b:
    "build_asci_art (np_random e) n p =
       (Inr (concat (?blank[alpha := GOAL_CHAR] # mid @ [?blank[?m - 1 := PLAYER_CHAR]])), g')"
    "alpha < ?m" "length mid = ?m - 2"
    "\<forall>r\<in>set mid. length r = ?m \<and> set r \<subseteq> {CHR '' '', OBSTACLE_CHAR}"
    by blast
  let ?A = "?blank[alpha := GOAL_CHAR] # mid @ [?blank[?m - 1 := PLAYER_CHAR]]"
  have lenA: "length ?A = ?m" using b(3) assms(1) by simp
  have rowsA: "\<forall>r\<in>set ?A. length r = ?m" using b(4) by auto
  have sqA: "square n ?A" using lenA rowsA by (simp add: square_def)
  have resh: "reshape (concat ?A) n = Inr ?A"
    using assms(1) lenA rowsA by (intro reshape_rows) simp_all
  have nogoal: "\<forall>r\<in>set (mid @ [?blank[?m - 1 := PLAYER_CHAR]]). GOAL_CHAR \<notin> set r"
  proof
    fix r assume "r \<in> set (mid @ [?blank[?m - 1 := PLAYER_CHAR]])"
    then consider "r \<in> set mid" | "r = ?blank[?m - 1 := PLAYER_CHAR]" by auto
    then show "GOAL_CHAR \<notin> set r"
    proof cases
      case 1
      with b(4) have "set r \<subseteq> {CHR '' '', OBSTACLE_CHAR}" by blast
      then show ?thesis by (auto simp: GOAL_CHAR_def OBSTACLE_CHAR_def)
    next
      case 2
      have "set (?blank[?m - 1 := PLAYER_CHAR]) \<subseteq> insert PLAYER_CHAR (set ?blank)"
        by (rule set_update_subset_insert)
      then show ?thesis
        unfolding 2 by (auto simp: GOAL_CHAR_def PLAYER_CHAR_def split: if_splits)
    qed
  qed
  have goal: "argwhere ?A GOAL_CHAR = [(0, int alpha)]"
    by (rule goal_row_argwhere [OF b(2) nogoal])
  have chars: "\<forall>r\<in>set ?A. set r \<subseteq> {CHR '' '', GOAL_CHAR, OBSTACLE_CHAR, PLAYER_CHAR}"
  proof
    fix r assume "r \<in> set ?A"
    then consider "r = ?blank[alpha := GOAL_CHAR]" | "r \<in> set mid"
      | "r = ?blank[?m - 1 := PLAYER_CHAR]" by auto
    then show "set r \<subseteq> {CHR '' '', GOAL_CHAR, OBSTACLE_CHAR, PLAYER_CHAR}"
    proof cases
      case 1
      have "set (?blank[alpha := GOAL_CHAR]) \<subseteq> insert GOAL_CHAR (set ?blank)"
        by (rule set_update_subset_insert)
      then show ?thesis unfolding 1 by (auto split: if_splits)
    next
      case 2
      with b(4) show ?thesis by blast
    next
      case 3
      have "set (?blank[?m - 1 := PLAYER_CHAR]) \<subseteq> insert PLAYER_CHAR (set ?blank)"
        by (rule set_update_subset_insert)
      then show ?thesis unfolding 3 by (auto split: if_splits)
    qed
  qed
  define A where "A = ?A"
  define e4 where "e4 = e\<lparr>gridsize := n, rho := p, stochasticity := st, np_random := g', art := A,
               img_observation := im, start_state := (n - 1, n - 1),
               goal_state := (0, int alpha), state := (n - 1, n - 1),
               obstacle_states := argwhere A OBSTACLE_CHAR\<rparr>"
  have "square (gridsize e4) (art e4)" using sqA by (simp add: e4_def A_def)
  moreover have "\<forall>r\<in>set (art e4). set r \<subseteq> {CHR '' '', GOAL_CHAR, OBSTACLE_CHAR, PLAYER_CHAR}"
    using chars by (simp add: e4_def A_def)
  ultimately obtain img where img: "get_art_img e4 = Inr img" "square (gridsize e4) img"
    "\<forall>i<nat (gridsize e4). \<forall>j<nat (gridsize e4).
       cell_color (art e4 ! i ! j) = Inr (img ! i ! j)"
    using get_art_img_ok [of e4] by blast
  define e' where "e' = e4\<lparr>art_img := img, action_space := Discrete 4,
                 observation_space := (if im then Box 0 1 [n, n, 3] else Box 0 1 [n * n])\<rparr>"
  have b': "build_asci_art (np_random e) n p = (Inr (concat A), g')"
    using b(1) by (simp only: A_def)
  have resh': "reshape (concat A) n = Inr A"
    using resh by (simp only: A_def)
  have goal': "argwhere A GOAL_CHAR = [(0, int alpha)]"
    using goal by (simp only: A_def)
  have "make_game e n p st im = (Inr (), e')"
    using img(1) by (simp add: make_game_def b' resh' goal' e4_def e'_def)
  moreover have "art e' = ?A" "gridsize e' = n" "rho e' = p" "stochasticity e' = st"
    "img_observation e' = im" "start_state e' = (n - 1, n - 1)" "state e' = (n - 1, n - 1)"
    "goal_state e' = (0, int alpha)" "obstacle_states e' = argwhere (art e') OBSTACLE_CHAR"
    "cumulat_constraint e' = cumulat_constraint e"
    by (simp_all add: e'_def e4_def A_def)
  moreover have "argwhere (art e') GOAL_CHAR = [goal_state e']"
    using goal' by (simp add: e'_def e4_def)
  moreover have "square n (art_img e')"
    using img(2) by (simp add: e'_def e4_def)
  moreover have "\<forall>i<nat n. \<forall>j<nat n. cell_color (art e' ! i ! j) = Inr (art_img e' ! i ! j)"
    using img(3) by (simp add: e'_def e4_def)
  ultimately show ?thesis
    using b(2,3,4) by blast
qed

lemma make_game_nonpositive: "n \<le> 0 \<Longrightarrow> fst (make_game e n p st im) = Inl ValueError"
  by (simp add: make_game_def build_asci_art_nonpositive)

lemma make_game_one: "fst (make_game e 1 p st im) = Inl ValueError"
  by (simp add: make_game_def build_asci_art_one reshape_one)

lemma make_game_bad_rho:
  "3 \<le> n \<Longrightarrow> p < 0 \<or> 1 < p \<Longrightarrow> fst (make_game e n p st im) = Inl ValueError"
  by (simp add: make_game_def build_asci_art_bad_rho)

lemma make_game_outcome:
  "fst (make_game e n p st im) =
     (if n < 2 \<or> (3 \<le> n \<and> (p < 0 \<or> 1 < p)) then Inl ValueError else Inr ())"
proof -
  consider "n \<le> 0" | "n = 1" | "3 \<le> n" "p < 0 \<or> 1 < p" | "2 \<le> n" "n = 2 \<or> (0 \<le> p \<and> p \<le> 1)"
    by linarith
  then show ?thesis
  proof cases
    case 1
    then show ?thesis by (simp add: make_game_nonpositive)
  next
    case 2
    then show ?thesis by (simp add: make_game_one)
  next
    case 3
    then show ?thesis by (simp add: make_game_bad_rho)
  next
    case 4
    from make_game_ok [OF 4, of e st im]
    obtain e' where "make_game e n p st im = (Inr (), e')" by blast
    moreover have "\<not> (n < 2 \<or> (3 \<le> n \<and> (p < 0 \<or> 1 < p)))" using 4 by auto
    ultimately show ?thesis by simp
  qed
qed

lemma make_game_wf:
  assumes "2 \<le> n" "n = 2 \<or> (0 \<le> p \<and> p \<le> 1)"
  shows "\<exists>e'. make_game e n p st im = (Inr (), e') \<and> wf_env e' \<and> gridsize e' = n \<and>
              stochasticity e' = st \<and> img_observation e' = im \<and> state e' = (n - 1, n - 1)"
proof -
  from make_game_ok [OF assms, of e st im]
  obtain e' alpha mid where e': "make_game e n p st im = (Inr (), e')"
    "length mid = nat n - 2"
    "\<forall>r\<in>set mid. length r = nat n \<and> set r \<subseteq> {CHR '' '', OBSTACLE_CHAR}"
    "art e' = (replicate (nat n) CHR '' '')[alpha := GOAL_CHAR] # mid @
              [(replicate (nat n) CHR '' '')[nat n - 1 := PLAYER_CHAR]]"
    "gridsize e' = n" "stochasticity e' = st" "img_observation e' = im"
    "state e' = (n - 1, n - 1)" "obstacle_states e' = argwhere (art e') OBSTACLE_CHAR"
    "square n (art_img e')" "argwhere (art e') GOAL_CHAR = [goal_state e']"
    by blast
  have "square n (art e')"
    using e'(2,3) assms(1) by (auto simp: square_def e'(4))
  then have "wf_env e'"
    using e' assms(1) by (simp add: wf_env_def in_grid_def)
  with e' show ?thesis by blast
qed

subsection \<open>The transition\<close>

lemma ACTIONS_Some_iff: "(\<exists>d. ACTIONS a = Some d) \<longleftrightarrow> a \<in> {0, 1, 2, 3}"
  by (auto simp: ACTIONS_def)

lemma ACTIONS_range:
  assumes "0 \<le> a" "a < 4"
  shows "\<exists>d. ACTIONS a = Some d"
proof -
  have "a \<in> {0, 1, 2, 3}" using assms by auto
  then show ?thesis by (simp only: ACTIONS_Some_iff)
qed

lemma draw_action_zero: "draw_action 0 glob a = (Inr a, glob\<lparr>cursor := Suc (cursor glob)\<rparr>)"
  by (simp add: draw_action_def binomial1_zero)

lemma draw_action_one:
  "draw_action 1 glob a =
     (Inr (int (tape glob (Suc (cursor glob))) mod 4), glob\<lparr>cursor := Suc (Suc (cursor glob))\<rparr>)"
  by (simp add: draw_action_def binomial1_one randint_def next_raw_def)


lemma move_eq:
  "move e d =
     e\<lparr>state := (if in_grid (gridsize e) (fst (state e) + fst d, snd (state e) + snd d)
                  then (fst (state e) + fst d, snd (state e) + snd d) else state e)\<rparr>"
  by (simp add: move_def Let_def)

lemma wf_env_move: "wf_env e \<Longrightarrow> wf_env (move e d)"
  by (simp add: move_eq wf_env_def)

lemma grid_index_bounds:
  fixes i j n :: int
  assumes "0 \<le> i" "i < n" "0 \<le> j" "j < n"
  shows "0 \<le> i * n + j" and "i * n + j < n * n"
proof -
  show "0 \<le> i * n + j" using assms by simp
  have "i * n \<le> (n - 1) * n"
    using assms by (intro mult_right_mono) simp_all
  then show "i * n + j < n * n"
    using assms(4) by (simp add: algebra_simps)
qed

lemma state_to_oh_ok:
  assumes "in_grid (gridsize e) (state e)"
  shows "state_to_oh e =
           Inr (OneHot ((replicate (nat (gridsize e * gridsize e)) 0)
                  [nat (fst (state e) * gridsize e + snd (state e)) := 1]))"
proof -
  obtain i j where s: "state e = (i, j)" by (cases "state e")
  with assms have "0 \<le> i" "i < gridsize e" "0 \<le> j" "j < gridsize e"
    by (auto simp: in_grid_def)
  from grid_index_bounds [OF this] show ?thesis
    by (simp add: state_to_oh_def s norm_index_in)
qed

lemma FG_COLORS_player: "FG_COLORS PLAYER_CHAR = Some (1, 0, 0)"
  by (simp add: FG_COLORS_def PLAYER_CHAR_def OBSTACLE_CHAR_def)

lemma state_to_img_ok:
  assumes "in_grid (gridsize e) (state e)" "square (gridsize e) (art_img e)"
  shows "state_to_img e =
           Inr (Image ((art_img e)[nat (fst (state e)) :=
                  (art_img e ! nat (fst (state e)))[nat (snd (state e)) := (1, 0, 0)]]))"
proof -
  obtain i j where s: "state e = (i, j)" by (cases "state e")
  with assms(1) have b: "0 \<le> i" "i < gridsize e" "0 \<le> j" "j < gridsize e"
    by (auto simp: in_grid_def)
  have len: "int (length (art_img e)) = gridsize e"
    using assms(2) b by (simp add: square_def)
  have "art_img e ! nat i \<in> set (art_img e)"
    using assms(2) b by (simp add: square_def)
  then have row: "int (length (art_img e ! nat i)) = gridsize e"
    using assms(2) b by (simp add: square_def)
  show ?thesis
    using b by (simp add: state_to_img_def s len row norm_index_in FG_COLORS_player)
qed

lemma observe_ok: "wf_env e \<Longrightarrow> \<exists>ob. observe e = Inr ob"
  by (simp add: observe_def wf_env_def state_to_oh_ok state_to_img_ok)


lemma step_Inr_I:
  assumes "draw_action (stochasticity e) glob a = (Inr a', glob')" "ACTIONS a' = Some d"
    "observe (move e d) = Inr ob"
  shows "step e glob a =
           (Inr \<lparr>obs = ob,
                 reward = (if state (move e d) = goal_state (move e d) then 1000 else - 1),
                 is_done = (state (move e d) = goal_state (move e d)),
                 constraint_costs =
                   (if state (move e d) \<noteq> goal_state (move e d) \<and>
                       state (move e d) \<in> set (obstacle_states (move e d))
                    then [1] else [0])\<rparr>, move e d, glob')"
  using assms by (simp add: step_def Let_def)

lemma step_env:
  assumes "draw_action (stochasticity e) glob a = (Inr a', glob')" "ACTIONS a' = Some d"
  shows "fst (snd (step e glob a)) = move e d"
  using assms by (simp add: step_def Let_def split: sum.splits)


subsection \<open>The generated grid\<close>

lemma generated_rows:
  assumes "2 \<le> m" "length mid = m - 2" "A = first # mid @ [final]"
  shows "A ! 0 = first" and "A ! (m - 1) = final"
    and "\<And>i. 0 < i \<Longrightarrow> i < m - 1 \<Longrightarrow> A ! i \<in> set mid"
proof -
  show "A ! 0 = first" by (simp add: assms(3))
  have "m - 1 = Suc (length mid)" using assms(1,2) by simp
  then show "A ! (m - 1) = final" by (simp add: assms(3) nth_append)
  fix i assume "0 < i" "i < m - 1"
  then obtain k where k: "i = Suc k" "k < length mid"
    using assms(2) by (cases i) auto
  then show "A ! i \<in> set mid" by (simp add: assms(3) nth_append)
qed

lemma generated_cells:
  assumes "2 \<le> m" "alpha < m" "length mid = m - 2"
    and "\<forall>r\<in>set mid. length r = m \<and> set r \<subseteq> {CHR '' '', OBSTACLE_CHAR}"
    and "A = (replicate m CHR '' '')[alpha := GOAL_CHAR] # mid @
             [(replicate m CHR '' '')[m - 1 := PLAYER_CHAR]]"
    and "i < m" "j < m"
  shows "(A ! i ! j = GOAL_CHAR) = (i = 0 \<and> j = alpha)"
    and "A ! i ! j = OBSTACLE_CHAR \<Longrightarrow> 0 < i \<and> i < m - 1"
    and "A ! (m - 1) ! (m - 1) = PLAYER_CHAR"
proof -
  note rows = generated_rows [OF assms(1,3,5)]
  have mid: "A ! i ! j \<in> {CHR '' '', OBSTACLE_CHAR}" if "0 < i" "i < m - 1"
  proof -
    from rows(3) [OF that] assms(4,7)
    have "A ! i ! j \<in> set (A ! i)" "set (A ! i) \<subseteq> {CHR '' '', OBSTACLE_CHAR}" by auto
    then show ?thesis by blast
  qed
  consider "i = 0" | "0 < i" "i < m - 1" | "i = m - 1" "0 < i"
    using assms(6) by linarith
  then show "(A ! i ! j = GOAL_CHAR) = (i = 0 \<and> j = alpha)"
  proof cases
    case 1
    then show ?thesis
      using assms(2,7) by (auto simp: rows(1) nth_list_update GOAL_CHAR_def)
  next
    case 2
    with mid show ?thesis by (auto simp: GOAL_CHAR_def OBSTACLE_CHAR_def)
  next
    case 3
    then have "A ! i = (replicate m CHR '' '')[m - 1 := PLAYER_CHAR]"
      using rows(2) by simp
    then show ?thesis
      using assms(7) 3 by (auto simp: nth_list_update GOAL_CHAR_def PLAYER_CHAR_def)
  qed
  show "0 < i \<and> i < m - 1" if "A ! i ! j = OBSTACLE_CHAR"
  proof (rule ccontr)
    assume "\<not> (0 < i \<and> i < m - 1)"
    then consider "i = 0" | "i = m - 1" using assms(6) by linarith
    then show False
    proof cases
      case 1
      with that show False
        using assms(2,7)
        by (auto simp: rows(1) nth_list_update GOAL_CHAR_def OBSTACLE_CHAR_def split: if_splits)
    next
      case 2
      then have "A ! i = (replicate m CHR '' '')[m - 1 := PLAYER_CHAR]"
        using rows(2) by simp
      with that show False
        using assms(7)
        by (auto simp: nth_list_update PLAYER_CHAR_def OBSTACLE_CHAR_def split: if_splits)
    qed
  qed
  have "A ! (m - 1) ! (m - 1) = (replicate m CHR '' '')[m - 1 := PLAYER_CHAR] ! (m - 1)"
    by (simp only: rows(2))
  then show "A ! (m - 1) ! (m - 1) = PLAYER_CHAR"
    using assms(1) by simp
qed

text \<open>
  C3. Whatever the state of the random source, \<^verbatim>\<open>make_game\<close> with a grid size of at least
  2 and a density in \<open>[0, 1]\<close> succeeds, and the grid it generates is square, holds the goal
  character in exactly one cell, which is in row 0 and is the goal position, has no obstacle
  in row 0 nor in the last row, and its bottom-right cell, the start position, holds the
  player marker: it is neither an obstacle nor the goal.
\<close>

theorem generated_grid_invariant:
  assumes "2 \<le> n" "0 \<le> p" "p \<le> 1"
  shows "\<exists>e' c. make_game e n p st im = (Inr (), e') \<and> square n (art e') \<and>
           c < nat n \<and> goal_state e' = (0, int c) \<and>
           (\<forall>i<nat n. \<forall>j<nat n. (art e' ! i ! j = GOAL_CHAR) = (i = 0 \<and> j = c)) \<and>
           (\<forall>j<nat n. art e' ! 0 ! j \<noteq> OBSTACLE_CHAR \<and>
                       art e' ! (nat n - 1) ! j \<noteq> OBSTACLE_CHAR) \<and>
           start_state e' = (n - 1, n - 1) \<and>
           art e' ! (nat n - 1) ! (nat n - 1) = PLAYER_CHAR \<and>
           start_state e' \<notin> set (obstacle_states e') \<and>
           start_state e' \<noteq> goal_state e'"
proof -
  let ?m = "nat n"
  have m: "2 \<le> ?m" using assms(1) by simp
  have "n = 2 \<or> (0 \<le> p \<and> p \<le> 1)" using assms(2,3) by simp
  from make_game_ok [OF assms(1) this, of e st im]
  obtain e' c mid where e': "make_game e n p st im = (Inr (), e')"
    and c: "c < ?m" and mid: "length mid = ?m - 2"
    "\<forall>r\<in>set mid. length r = ?m \<and> set r \<subseteq> {CHR '' '', OBSTACLE_CHAR}"
    and A: "art e' = (replicate ?m CHR '' '')[c := GOAL_CHAR] # mid @
                     [(replicate ?m CHR '' '')[?m - 1 := PLAYER_CHAR]]"
    and f: "start_state e' = (n - 1, n - 1)" "goal_state e' = (0, int c)"
    "obstacle_states e' = argwhere (art e') OBSTACLE_CHAR"
    by blast
  note cells = generated_cells [OF m c mid A]
  have sq: "square n (art e')"
    using mid m by (auto simp: square_def A)
  have goal: "\<forall>i<?m. \<forall>j<?m. (art e' ! i ! j = GOAL_CHAR) = (i = 0 \<and> j = c)"
    using cells(1) by blast
  have edge: "\<forall>j<?m. art e' ! 0 ! j \<noteq> OBSTACLE_CHAR \<and> art e' ! (?m - 1) ! j \<noteq> OBSTACLE_CHAR"
  proof (intro allI impI conjI)
    fix j assume j: "j < ?m"
    show "art e' ! 0 ! j \<noteq> OBSTACLE_CHAR"
      using cells(2) [of 0 j] j m assms(1) by auto
    show "art e' ! (?m - 1) ! j \<noteq> OBSTACLE_CHAR"
      using cells(2) [of "?m - 1" j] j m assms(1) by auto
  qed
  have corner: "art e' ! (?m - 1) ! (?m - 1) = PLAYER_CHAR"
    using cells(3) [of 0 0] m by simp
  have "start_state e' \<notin> set (obstacle_states e')"
  proof
    assume "start_state e' \<in> set (obstacle_states e')"
    then obtain i j where ij: "(n - 1, n - 1) = (int i, int j)"
      "art e' ! i ! j = OBSTACLE_CHAR"
      by (auto simp: f set_argwhere)
    then have "i = ?m - 1" "j = ?m - 1" by auto
    with ij(2) corner show False
      by (simp add: PLAYER_CHAR_def OBSTACLE_CHAR_def)
  qed
  moreover have "start_state e' \<noteq> goal_state e'"
    using assms(1) by (simp add: f)
  ultimately show ?thesis
    using e' sq c f goal edge corner by blast
qed

theorem generated_grid_invariant_witness:
  "\<exists>e' c. make_game demo 3 (1 / 2) 0 False = (Inr (), e') \<and> square 3 (art e') \<and>
     c < nat 3 \<and> goal_state e' = (0, int c) \<and>
     (\<forall>i<nat 3. \<forall>j<nat 3. (art e' ! i ! j = GOAL_CHAR) = (i = 0 \<and> j = c)) \<and>
     (\<forall>j<nat 3. art e' ! 0 ! j \<noteq> OBSTACLE_CHAR \<and> art e' ! (nat 3 - 1) ! j \<noteq> OBSTACLE_CHAR) \<and>
     start_state e' = (3 - 1, 3 - 1) \<and>
     art e' ! (nat 3 - 1) ! (nat 3 - 1) = PLAYER_CHAR \<and>
     start_state e' \<notin> set (obstacle_states e') \<and>
     start_state e' \<noteq> goal_state e'"
proof -
  have "(2::int) \<le> 3" "(0::real) \<le> 1 / 2" "(1 / 2 :: real) \<le> 1" by simp_all
  from generated_grid_invariant [OF this] show ?thesis .
qed

subsection \<open>The invariant of the environment\<close>

lemma argwhere_Nil: "argwhere [] ch = []"
  by (simp add: argwhere_def)

lemma wf_env_demo: "wf_env demo"
  by (simp add: wf_env_def demo_def square_def in_grid_def argwhere_Cons argwhere_Nil
      GOAL_CHAR_def OBSTACLE_CHAR_def)

lemma wf_env_state:
  "wf_env e \<Longrightarrow> in_grid (gridsize e) p \<Longrightarrow> wf_env (e\<lparr>state := p\<rparr>)"
  by (simp add: wf_env_def)

lemma wf_env_step: "wf_env e \<Longrightarrow> wf_env (fst (snd (step e glob a)))"
  by (auto simp: step_def Let_def wf_env_move split: prod.splits sum.splits option.splits)

lemma wf_env_reset:
  "wf_env e \<Longrightarrow> in_grid (gridsize e) (start_state e) \<Longrightarrow> wf_env (snd (reset e))"
  by (simp add: reset_def Let_def wf_env_def)

lemma wf_cell:
  assumes "square n a" "in_grid n (i, j)"
  shows "((i, j) \<in> set (argwhere a ch)) = (a ! nat i ! nat j = ch)"
proof -
  from assms(2) have b: "0 \<le> i" "i < n" "0 \<le> j" "j < n"
    by (auto simp: in_grid_def)
  then have i: "nat i < length a" using assms(1) by (simp add: square_def)
  then have "a ! nat i \<in> set a" by simp
  then have j: "nat j < length (a ! nat i)" using assms(1) b by (simp add: square_def)
  show ?thesis
  proof
    assume "(i, j) \<in> set (argwhere a ch)"
    then obtain i' j' where "i = int i'" "j = int j'" "a ! i' ! j' = ch"
      by (auto simp: set_argwhere)
    then show "a ! nat i ! nat j = ch" by simp
  next
    assume "a ! nat i ! nat j = ch"
    with i j have "(int (nat i), int (nat j)) \<in> set (argwhere a ch)"
      unfolding set_argwhere by blast
    then show "(i, j) \<in> set (argwhere a ch)" using b by simp
  qed
qed

lemma wf_cell_goal:
  assumes "wf_env e" "in_grid (gridsize e) (i, j)"
  shows "((i, j) = goal_state e) = (art e ! nat i ! nat j = GOAL_CHAR)"
proof -
  have "square (gridsize e) (art e)" "argwhere (art e) GOAL_CHAR = [goal_state e]"
    using assms(1) by (simp_all add: wf_env_def)
  from wf_cell [OF this(1) assms(2), of GOAL_CHAR] this(2) show ?thesis by simp
qed

lemma wf_cell_obstacle:
  assumes "wf_env e" "in_grid (gridsize e) (i, j)"
  shows "((i, j) \<in> set (obstacle_states e)) = (art e ! nat i ! nat j = OBSTACLE_CHAR)"
proof -
  have "square (gridsize e) (art e)" "obstacle_states e = argwhere (art e) OBSTACLE_CHAR"
    using assms(1) by (simp_all add: wf_env_def)
  from wf_cell [OF this(1) assms(2), of OBSTACLE_CHAR] this(2) show ?thesis by simp
qed

lemma move_fields:
  "gridsize (move e d) = gridsize e" "goal_state (move e d) = goal_state e"
  "obstacle_states (move e d) = obstacle_states e" "art (move e d) = art e"
  "art_img (move e d) = art_img e" "stochasticity (move e d) = stochasticity e"
  "img_observation (move e d) = img_observation e"
  by (simp_all add: move_eq)


subsection \<open>The claims about the transition\<close>

lemma step_env_zero:
  assumes "stochasticity e = 0" "ACTIONS a = Some d"
  shows "fst (snd (step e glob a)) = move e d"
  using step_env [of e glob a a "glob\<lparr>cursor := Suc (cursor glob)\<rparr>" d] assms
  by (simp add: draw_action_zero)



text \<open>
  C1. The spec's encoding makes action 0 the move \<open>(+1, 0)\<close> and action 2 the move
  \<open>(-1, 0)\<close>. The table of the code has them the other way round: with no stochastic
  override, from the cell \<open>(1, 2)\<close> of a grid of side 3, action 0 takes the agent to \<open>(0, 2)\<close>,
  not to \<open>(2, 2)\<close>, and action 2 takes it to \<open>(2, 2)\<close>, not to \<open>(0, 2)\<close>.
\<close>

theorem action_zero_decrements_row:
  "ACTIONS 0 = Some (- 1, 0) \<and> ACTIONS 2 = Some (1, 0) \<and>
   state (fst (snd (step (demo\<lparr>state := (1, 2)\<rparr>) (const_source 0) 0))) = (0, 2) \<and>
   state (fst (snd (step (demo\<lparr>state := (1, 2)\<rparr>) (const_source 0) 2))) = (2, 2)"
proof -
  have a0: "ACTIONS 0 = Some (- 1, 0)" and a2: "ACTIONS 2 = Some (1, 0)"
    by (simp_all add: ACTIONS_def)
  have z: "stochasticity (demo\<lparr>state := (1, 2)\<rparr>) = 0" by (simp add: demo_def)
  have "state (move (demo\<lparr>state := (1, 2)\<rparr>) (- 1, 0)) = (0, 2)"
    "state (move (demo\<lparr>state := (1, 2)\<rparr>) (1, 0)) = (2, 2)"
    by (simp_all add: move_eq demo_def in_grid_def)
  then show ?thesis
    by (simp only: step_env_zero [OF z a0] step_env_zero [OF z a2] a0 a2 simp_thms)
qed





lemma demo_corner_wf: "wf_env (demo\<lparr>state := (0, 0)\<rparr>)"
  by (rule wf_env_state [OF wf_env_demo]) (simp add: demo_def in_grid_def)

text \<open>
  The movement rule. Whatever the effective action (the one left by the stochastic
  override) and its row and column delta, the environment after the step has the candidate
  position as its position if both coordinates of the candidate are in \<open>[0, gridsize)\<close>,
  and is unchanged otherwise. With no override, in a well-formed environment whose agent
  is at \<open>(0, 0)\<close> on an empty cell, the two actions whose delta is \<open>(-1, 0)\<close> or \<open>(0, -1)\<close> are
  absorbed: the step returns reward -1, done unset and constraint cost 0, and leaves the
  environment as it was.
\<close>

lemma step_movement_rule:
  "(\<forall>a' glob' dx dy.
      draw_action (stochasticity e) glob a = (Inr a', glob') \<and> ACTIONS a' = Some (dx, dy) \<longrightarrow>
      fst (snd (step e glob a)) =
        (if 0 \<le> fst (state e) + dx \<and> fst (state e) + dx < gridsize e \<and>
            0 \<le> snd (state e) + dy \<and> snd (state e) + dy < gridsize e
         then e\<lparr>state := (fst (state e) + dx, snd (state e) + dy)\<rparr> else e)) \<and>
   (wf_env e \<and> stochasticity e = 0 \<and> state e = (0, 0) \<and> art e ! 0 ! 0 = EMPTY_CHAR \<and>
    (ACTIONS a = Some (- 1, 0) \<or> ACTIONS a = Some (0, - 1)) \<longrightarrow>
      (\<exists>ob glob'. step e glob a =
         (Inr \<lparr>obs = ob, reward = - 1, is_done = False, constraint_costs = [0]\<rparr>, e, glob')))"
proof (rule conjI)
  show "\<forall>a' glob' dx dy.
      draw_action (stochasticity e) glob a = (Inr a', glob') \<and> ACTIONS a' = Some (dx, dy) \<longrightarrow>
      fst (snd (step e glob a)) =
        (if 0 \<le> fst (state e) + dx \<and> fst (state e) + dx < gridsize e \<and>
            0 \<le> snd (state e) + dy \<and> snd (state e) + dy < gridsize e
         then e\<lparr>state := (fst (state e) + dx, snd (state e) + dy)\<rparr> else e)"
  proof (intro allI impI)
    fix a' glob' dx dy
    assume "draw_action (stochasticity e) glob a = (Inr a', glob') \<and> ACTIONS a' = Some (dx, dy)"
    then have "fst (snd (step e glob a)) = move e (dx, dy)"
      using step_env by blast
    then show "fst (snd (step e glob a)) =
        (if 0 \<le> fst (state e) + dx \<and> fst (state e) + dx < gridsize e \<and>
            0 \<le> snd (state e) + dy \<and> snd (state e) + dy < gridsize e
         then e\<lparr>state := (fst (state e) + dx, snd (state e) + dy)\<rparr> else e)"
      by (auto simp: move_def Let_def in_grid_def)
  qed
next
  show "wf_env e \<and> stochasticity e = 0 \<and> state e = (0, 0) \<and> art e ! 0 ! 0 = EMPTY_CHAR \<and>
    (ACTIONS a = Some (- 1, 0) \<or> ACTIONS a = Some (0, - 1)) \<longrightarrow>
      (\<exists>ob glob'. step e glob a =
         (Inr \<lparr>obs = ob, reward = - 1, is_done = False, constraint_costs = [0]\<rparr>, e, glob'))"
  proof
    assume h: "wf_env e \<and> stochasticity e = 0 \<and> state e = (0, 0) \<and> art e ! 0 ! 0 = EMPTY_CHAR \<and>
      (ACTIONS a = Some (- 1, 0) \<or> ACTIONS a = Some (0, - 1))"
    then have wf: "wf_env e" and z: "stochasticity e = 0" and s: "state e = (0, 0)"
      and empty: "art e ! 0 ! 0 = EMPTY_CHAR" by simp_all
    from h obtain d where d: "ACTIONS a = Some d" "d = (- 1, 0) \<or> d = (0, - 1)" by auto
    have stay: "move e d = e"
      using d(2) s by (auto simp: move_def Let_def in_grid_def)
    have grid: "in_grid (gridsize e) (0, 0)"
      using wf s by (simp add: wf_env_def)
    have "(0, 0) \<noteq> goal_state e"
      using wf_cell_goal [OF wf grid] empty by (simp add: EMPTY_CHAR_def GOAL_CHAR_def)
    moreover have "(0, 0) \<notin> set (obstacle_states e)"
      using wf_cell_obstacle [OF wf grid] empty by (simp add: EMPTY_CHAR_def OBSTACLE_CHAR_def)
    moreover obtain ob where "observe e = Inr ob"
      using observe_ok [OF wf] by blast
    moreover have "draw_action (stochasticity e) glob a =
        (Inr a, glob\<lparr>cursor := Suc (cursor glob)\<rparr>)"
      by (simp add: z draw_action_zero)
    ultimately have "step e glob a =
        (Inr \<lparr>obs = ob, reward = - 1, is_done = False, constraint_costs = [0]\<rparr>, e,
         glob\<lparr>cursor := Suc (cursor glob)\<rparr>)"
      using step_Inr_I [of e glob a a "glob\<lparr>cursor := Suc (cursor glob)\<rparr>" d ob] d(1) stay s
      by auto
    then show "\<exists>ob glob'. step e glob a =
        (Inr \<lparr>obs = ob, reward = - 1, is_done = False, constraint_costs = [0]\<rparr>, e, glob')"
      by blast
  qed
qed

text \<open>
  The corner \<open>(0, 0)\<close> of the example grid is reached from the start by two steps left and
  two steps with action 0, whatever the state of the random sources.
\<close>

lemma demo_step_env:
  assumes "ACTIONS a = Some d"
  shows "fst (snd (step (demo\<lparr>state := p\<rparr>) glob a)) = move (demo\<lparr>state := p\<rparr>) d"
  by (rule step_env_zero [OF _ assms]) (simp add: demo_def)

lemma demo_corner_reached:
  "fst (snd (step (fst (snd (step (fst (snd (step (fst (snd (step (demo\<lparr>state := (2, 2)\<rparr>)
      g1 1))) g2 1))) g3 0))) g4 0)) = demo\<lparr>state := (0, 0)\<rparr>"
proof -
  have left: "ACTIONS 1 = Some (0, - 1)" and up: "ACTIONS 0 = Some (- 1, 0)"
    by (simp_all add: ACTIONS_def)
  have 1: "fst (snd (step (demo\<lparr>state := (2, 2)\<rparr>) g1 1)) = demo\<lparr>state := (2, 1)\<rparr>"
    by (simp add: demo_step_env [OF left] move_eq in_grid_def) (simp add: demo_def)
  have 2: "fst (snd (step (demo\<lparr>state := (2, 1)\<rparr>) g2 1)) = demo\<lparr>state := (2, 0)\<rparr>"
    by (simp add: demo_step_env [OF left] move_eq in_grid_def) (simp add: demo_def)
  have 3: "fst (snd (step (demo\<lparr>state := (2, 0)\<rparr>) g3 0)) = demo\<lparr>state := (1, 0)\<rparr>"
    by (simp add: demo_step_env [OF up] move_eq in_grid_def) (simp add: demo_def)
  have 4: "fst (snd (step (demo\<lparr>state := (1, 0)\<rparr>) g4 0)) = demo\<lparr>state := (0, 0)\<rparr>"
    by (simp add: demo_step_env [OF up] move_eq in_grid_def) (simp add: demo_def)
  show ?thesis by (simp only: 1 2 3 4)
qed

text \<open>
  C6. The movement rule is as the claim has it (lemma \<open>step_movement_rule\<close>), but its
  particular case fails for Up. Up is action 2, in the spec's encoding and in the class
  docstring, and the table of the code gives action 2 the delta \<open>(+1, 0)\<close>: with no
  override, from \<open>(0, 0)\<close> on an empty cell of the example grid, the step with action 2 is
  not absorbed and takes the agent to \<open>(1, 0)\<close>. The step with Left, action 1, is absorbed
  as the claim says.
\<close>

theorem up_from_corner_not_absorbed:
  "art (demo\<lparr>state := (0, 0)\<rparr>) ! 0 ! 0 = EMPTY_CHAR \<and>
   stochasticity (demo\<lparr>state := (0, 0)\<rparr>) = 0 \<and>
   ACTIONS 2 = Some (1, 0) \<and>
   step (demo\<lparr>state := (0, 0)\<rparr>) (const_source 0) 2 =
     (Inr \<lparr>obs = OneHot [0, 0, 0, 1, 0, 0, 0, 0, 0], reward = - 1, is_done = False,
           constraint_costs = [0]\<rparr>,
      demo\<lparr>state := (1, 0)\<rparr>, (const_source 0)\<lparr>cursor := 1\<rparr>) \<and>
   step (demo\<lparr>state := (0, 0)\<rparr>) (const_source 0) 1 =
     (Inr \<lparr>obs = OneHot [1, 0, 0, 0, 0, 0, 0, 0, 0], reward = - 1, is_done = False,
           constraint_costs = [0]\<rparr>,
      demo\<lparr>state := (0, 0)\<rparr>, (const_source 0)\<lparr>cursor := 1\<rparr>)"
  by (simp add: step_def draw_action_zero demo_def ACTIONS_def move_eq in_grid_def
      observe_def state_to_oh_def norm_index_def const_source_def EMPTY_CHAR_def
      eval_nat_numeral)

subsection \<open>Observations, and steps after the goal\<close>

text \<open>
  C9. For an agent at \<open>(row, col)\<close> on the grid, the one-hot observation is a vector of
  \<open>gridsize * gridsize\<close> entries, 1 at index \<open>row * gridsize + col\<close> and 0 everywhere else;
  and, the cached image being square, the image observation is square too and equals the
  cached image at every pixel except \<open>(row, col)\<close>, where it is the player colour (red),
  whatever the cached image has there.
\<close>

theorem observation_encodings:
  assumes "in_grid (gridsize e) (state e)" "square (gridsize e) (art_img e)"
    "state e = (row, col)"
  shows "\<exists>v img. state_to_oh e = Inr (OneHot v) \<and>
           length v = nat (gridsize e * gridsize e) \<and>
           nat (row * gridsize e + col) < length v \<and>
           (\<forall>k<length v. v ! k = (if k = nat (row * gridsize e + col) then 1 else 0)) \<and>
           state_to_img e = Inr (Image img) \<and> square (gridsize e) img \<and>
           FG_COLORS PLAYER_CHAR = Some (1, 0, 0) \<and>
           (\<forall>i<nat (gridsize e). \<forall>j<nat (gridsize e).
              img ! i ! j = (if i = nat row \<and> j = nat col then (1, 0, 0) else art_img e ! i ! j))"
proof -
  let ?n = "gridsize e"
  let ?v = "(replicate (nat (?n * ?n)) 0)[nat (row * ?n + col) := 1::nat]"
  let ?img = "(art_img e)[nat row := (art_img e ! nat row)[nat col := (1, 0, 0)]]"
  from assms(1,3) have b: "0 \<le> row" "row < ?n" "0 \<le> col" "col < ?n"
    by (auto simp: in_grid_def)
  note idx = grid_index_bounds [OF b]
  have oh: "state_to_oh e = Inr (OneHot ?v)"
    using state_to_oh_ok [OF assms(1)] by (simp add: assms(3))
  have im: "state_to_img e = Inr (Image ?img)"
    using state_to_img_ok [OF assms(1,2)] by (simp add: assms(3))
  have len: "length ?v = nat (?n * ?n)" by simp
  have lt: "nat (row * ?n + col) < length ?v"
    using idx by simp
  have entries: "\<forall>k<length ?v. ?v ! k = (if k = nat (row * ?n + col) then 1 else 0)"
    by (simp add: nth_list_update)
  have rows: "length (art_img e) = nat ?n" "\<And>i. i < nat ?n \<Longrightarrow> length (art_img e ! i) = nat ?n"
    using assms(2) by (auto simp: square_def)
  have sq: "square ?n ?img"
    unfolding square_def
  proof (intro conjI ballI)
    show "length ?img = nat ?n" using rows(1) by simp
    fix r assume "r \<in> set ?img"
    then obtain i where "i < nat ?n" "r = ?img ! i"
      using rows(1) by (auto simp: in_set_conv_nth)
    then show "length r = nat ?n"
      using rows by (cases "i = nat row") simp_all
  qed
  have pixels: "\<forall>i<nat ?n. \<forall>j<nat ?n.
      ?img ! i ! j = (if i = nat row \<and> j = nat col then (1, 0, 0) else art_img e ! i ! j)"
  proof (intro allI impI)
    fix i j assume i: "i < nat ?n" and j: "j < nat ?n"
    show "?img ! i ! j = (if i = nat row \<and> j = nat col then (1, 0, 0) else art_img e ! i ! j)"
    proof (cases "i = nat row")
      case True
      then show ?thesis using rows i j by (simp add: nth_list_update)
    next
      case False
      then show ?thesis using rows i by simp
    qed
  qed
  from oh len lt entries im sq FG_COLORS_player pixels show ?thesis by blast
qed

theorem observation_encodings_witness:
  "in_grid (gridsize demo) (state demo) \<and> square (gridsize demo) (art_img demo) \<and>
   state demo = (2, 2) \<and>
   (\<exists>v img. state_to_oh demo = Inr (OneHot v) \<and>
      length v = nat (gridsize demo * gridsize demo) \<and>
      nat (2 * gridsize demo + 2) < length v \<and>
      (\<forall>k<length v. v ! k = (if k = nat (2 * gridsize demo + 2) then 1 else 0)) \<and>
      state_to_img demo = Inr (Image img) \<and> square (gridsize demo) img \<and>
      FG_COLORS PLAYER_CHAR = Some (1, 0, 0) \<and>
      (\<forall>i<nat (gridsize demo). \<forall>j<nat (gridsize demo).
         img ! i ! j = (if i = nat 2 \<and> j = nat 2 then (1, 0, 0) else art_img demo ! i ! j)))"
proof -
  have g: "in_grid (gridsize demo) (state demo)" and sq: "square (gridsize demo) (art_img demo)"
    using wf_env_demo by (simp_all add: wf_env_def)
  have s: "state demo = (2, 2)" by (simp add: demo_def)
  from observation_encodings [OF g sq s] g sq s show ?thesis by blast
qed




subsection \<open>Configuration errors and invalid actions\<close>

text \<open>
  C7 as stated fails: \<^verbatim>\<open>make_game\<close> validates nothing itself, and a stochasticity of 7 (or,
  on a grid of side 2, where no Bernoulli trial is made, a density of 5) is accepted.
\<close>

theorem make_game_accepts_bad_probabilities:
  "fst (make_game (blank (const_source 0)) 2 (3 / 10) 7 False) = Inr () \<and>
   fst (make_game (blank (const_source 0)) 2 5 (1 / 10) False) = Inr ()"
  by (simp add: make_game_outcome)

text \<open>
  C7, amended. \<^verbatim>\<open>make_game\<close> fails, with the ValueError of the numpy call that rejects its
  argument, exactly when the grid size is below 2, or the grid size is at least 3 and the
  density is outside \<open>[0, 1]\<close>; in every other case it succeeds. The stochasticity is not
  looked at.
\<close>

theorem make_game_failures:
  "fst (make_game e n p st im) =
     (if n < 2 \<or> (3 \<le> n \<and> (p < 0 \<or> 1 < p)) then Inl ValueError else Inr ())"
  by (rule make_game_outcome)

theorem make_game_failures_witness:
  "fst (make_game demo 1 (1 / 2) 0 False) = Inl ValueError \<and>
   fst (make_game demo 3 2 0 False) = Inl ValueError \<and>
   fst (make_game demo 3 (1 / 2) 0 False) = Inr ()"
  using make_game_failures [of demo 1 "1 / 2" 0 False]
    make_game_failures [of demo 3 2 0 False]
    make_game_failures [of demo 3 "1 / 2" 0 False]
  by simp

text \<open>
  C8 as stated fails: with stochasticity 1 the override always fires, the action 7 is
  replaced by a drawn one before the table is read, and the step succeeds and moves the
  agent.
\<close>

theorem invalid_action_accepted:
  "fst (step (demo\<lparr>stochasticity := 1\<rparr>) (const_source 0) 7) =
     Inr \<lparr>obs = OneHot [0, 0, 0, 0, 0, 1, 0, 0, 0], reward = - 1, is_done = False,
          constraint_costs = [0]\<rparr> \<and>
   state (fst (snd (step (demo\<lparr>stochasticity := 1\<rparr>) (const_source 0) 7))) = (1, 2) \<and>
   state (demo\<lparr>stochasticity := 1\<rparr>) = (2, 2)"
  by (simp add: step_def draw_action_one demo_def ACTIONS_def move_eq in_grid_def
      observe_def state_to_oh_def norm_index_def const_source_def eval_nat_numeral)

text \<open>
  C8, amended. For an action outside \<open>{0, 1, 2, 3}\<close> and a stochasticity in \<open>[0, 1]\<close>, the
  Bernoulli trial of the override is made on the global random source first. If it fails,
  as it always does for stochasticity 0, the step fails with the KeyError of the table
  lookup and the environment, position included, is unchanged. If it succeeds, as it
  always does for stochasticity 1, the action is replaced by a drawn one of
  \<open>{0, 1, 2, 3}\<close>, the lookup does not fail, and the step proceeds as for a valid action:
  its outcome, the environment and the random source it leaves are those of the same
  step with any other action, and in a well-formed environment it returns.
\<close>

theorem invalid_action:
  assumes "a \<notin> {0, 1, 2, 3}" "0 \<le> stochasticity e" "stochasticity e \<le> 1"
  shows "\<exists>b g1. binomial1 glob (stochasticity e) = (Inr b, g1) \<and>
           cursor g1 = Suc (cursor glob) \<and>
           (stochasticity e = 0 \<longrightarrow> b = 0) \<and>
           (stochasticity e = 1 \<longrightarrow> b \<noteq> 0) \<and>
           (b = 0 \<longrightarrow> step e glob a = (Inl KeyError, e, g1)) \<and>
           (b \<noteq> 0 \<longrightarrow>
              (\<exists>a' g2. draw_action (stochasticity e) glob a = (Inr a', g2) \<and>
                 a' \<in> {0, 1, 2, 3}) \<and>
              fst (step e glob a) \<noteq> Inl KeyError \<and>
              (\<forall>a0. step e glob a = step e glob a0) \<and>
              (wf_env e \<longrightarrow> (\<exists>out e' glob'. step e glob a = (Inr out, e', glob'))))"
proof -
  let ?g1 = "glob\<lparr>cursor := Suc (cursor glob)\<rparr>"
  from binomial1_ok [OF assms(2,3), of glob]
  obtain b where b: "binomial1 glob (stochasticity e) = (Inr b, ?g1)" by blast
  have none: "ACTIONS a = None"
    using assms(1) ACTIONS_Some_iff [of a] by (cases "ACTIONS a") auto
  have zero: "b = 0" if "stochasticity e = 0"
    using b that by (simp add: binomial1_zero)
  have one: "b \<noteq> 0" if "stochasticity e = 1"
    using b that by (simp add: binomial1_one)
  have fail: "step e glob a = (Inl KeyError, e, ?g1)" if "b = 0"
    using that by (simp add: step_def draw_action_def b none)
  have fire: "(\<exists>a' g2. draw_action (stochasticity e) glob a = (Inr a', g2) \<and>
      a' \<in> {0, 1, 2, 3}) \<and> fst (step e glob a) \<noteq> Inl KeyError \<and>
      (\<forall>a0. step e glob a = step e glob a0) \<and>
      (wf_env e \<longrightarrow> (\<exists>out e' glob'. step e glob a = (Inr out, e', glob')))" if "b \<noteq> 0"
  proof -
    from randint_ok [of 0 4 ?g1]
    obtain r where r: "randint ?g1 0 4 = (Inr r, ?g1\<lparr>cursor := Suc (cursor ?g1)\<rparr>)"
      "0 \<le> r" "r < 4" by auto
    have dr: "draw_action (stochasticity e) glob a = (Inr r, ?g1\<lparr>cursor := Suc (cursor ?g1)\<rparr>)"
      using that by (simp add: draw_action_def b r(1))
    have mem: "r \<in> {0, 1, 2, 3}" using r(2,3) by auto
    then obtain d where d: "ACTIONS r = Some d"
      using ACTIONS_Some_iff by blast
    have "fst (step e glob a) \<noteq> Inl KeyError"
    proof (cases "observe (move e d)")
      case (Inl err)
      have "err \<noteq> KeyError"
        using Inl
        by (auto simp: observe_def state_to_img_def state_to_oh_def norm_index_def
            FG_COLORS_player Let_def split: if_splits prod.splits sum.splits)
      then show ?thesis
        by (simp add: step_def dr d Inl Let_def)
    next
      case (Inr ob)
      then show ?thesis by (simp add: step_def dr d Let_def)
    qed
    moreover have "\<forall>a0. step e glob a = step e glob a0"
      using that by (simp add: step_def draw_action_def b)
    moreover have "\<exists>out e' glob'. step e glob a = (Inr out, e', glob')" if wf: "wf_env e"
    proof -
      obtain ob where "observe (move e d) = Inr ob"
        using observe_ok [OF wf_env_move [OF wf]] by blast
      from step_Inr_I [OF dr d this] show ?thesis by blast
    qed
    ultimately show ?thesis using dr mem by blast
  qed
  have "cursor ?g1 = Suc (cursor glob)" by simp
  with b zero one fail fire show ?thesis by blast
qed

lemma demo_draw_zero:
  "binomial1 (const_source 0) (stochasticity demo) = (Inr 0, (const_source 0)\<lparr>cursor := 1\<rparr>)"
  by (simp add: demo_def binomial1_zero const_source_def)

theorem invalid_action_witness:
  "(7::int) \<notin> {0, 1, 2, 3} \<and> 0 \<le> stochasticity demo \<and> stochasticity demo \<le> 1 \<and>
   step demo (const_source 0) 7 = (Inl KeyError, demo, (const_source 0)\<lparr>cursor := 1\<rparr>) \<and>
   0 \<le> stochasticity (demo\<lparr>stochasticity := 1\<rparr>) \<and>
   stochasticity (demo\<lparr>stochasticity := 1\<rparr>) \<le> 1 \<and> wf_env (demo\<lparr>stochasticity := 1\<rparr>) \<and>
   step (demo\<lparr>stochasticity := 1\<rparr>) (const_source 0) 7 =
     step (demo\<lparr>stochasticity := 1\<rparr>) (const_source 0) 0 \<and>
   (\<exists>out e' glob'. step (demo\<lparr>stochasticity := 1\<rparr>) (const_source 0) 7 = (Inr out, e', glob'))"
proof -
  let ?D = "demo\<lparr>stochasticity := 1\<rparr>"
  have h: "(7::int) \<notin> {0, 1, 2, 3}" "0 \<le> stochasticity demo" "stochasticity demo \<le> 1"
    by (simp_all add: demo_def)
  from invalid_action [OF h, of "const_source 0"]
  obtain b g1 where "binomial1 (const_source 0) (stochasticity demo) = (Inr b, g1)"
    "b = 0 \<longrightarrow> step demo (const_source 0) 7 = (Inl KeyError, demo, g1)"
    by blast
  with demo_draw_zero have fail: "step demo (const_source 0) 7 =
      (Inl KeyError, demo, (const_source 0)\<lparr>cursor := 1\<rparr>)" by simp
  have h1: "0 \<le> stochasticity ?D" "stochasticity ?D \<le> 1" and one: "stochasticity ?D = 1"
    by simp_all
  have wf: "wf_env ?D"
    using wf_env_demo by (simp add: wf_env_def)
  from invalid_action [OF h(1) h1, of "const_source 0"] one wf
  have "step ?D (const_source 0) 7 = step ?D (const_source 0) 0"
    and "\<exists>out e' glob'. step ?D (const_source 0) 7 = (Inr out, e', glob')"
    by blast+
  with h fail h1 wf show ?thesis by blast
qed

subsection \<open>Seeding\<close>

lemma draw_action_one_const:
  "draw_action 1 (const_source v) a = (Inr (int v mod 4), (const_source v)\<lparr>cursor := 2\<rparr>)"
  by (simp add: draw_action_one const_source_def)

lemma step_one_hot:
  assumes "wf_env e" "stochasticity e = 1" "\<not> img_observation e"
    and "ACTIONS (int v mod 4) = Some d"
  shows "\<exists>out. step e (const_source v) a =
           (Inr out, move e d, (const_source v)\<lparr>cursor := 2\<rparr>) \<and>
           obs out = OneHot ((replicate (nat (gridsize e * gridsize e)) 0)
                       [nat (fst (state (move e d)) * gridsize e + snd (state (move e d))) := 1])"
proof -
  have dr: "draw_action (stochasticity e) (const_source v) a =
      (Inr (int v mod 4), (const_source v)\<lparr>cursor := 2\<rparr>)"
    by (simp add: assms(2) draw_action_one_const)
  have wf: "wf_env (move e d)" by (rule wf_env_move [OF assms(1)])
  then have "in_grid (gridsize (move e d)) (state (move e d))"
    by (simp add: wf_env_def)
  from state_to_oh_ok [OF this]
  have "observe (move e d) =
      Inr (OneHot ((replicate (nat (gridsize e * gridsize e)) 0)
            [nat (fst (state (move e d)) * gridsize e + snd (state (move e d))) := 1]))"
    using assms(3) by (simp add: observe_def move_fields)
  from step_Inr_I [OF dr assms(4) this] show ?thesis by simp
qed

lemma seed_default: "seed mk entropy e (Some 42) = (Inr [42], e\<lparr>np_random := mk 42\<rparr>)"
  by (simp add: seed_def seeding_np_random_def create_seed_def)

lemma seed_negative: "v < 0 \<Longrightarrow> seed mk entropy e (Some v) = (Inl GymError, e)"
  by (simp add: seed_def seeding_np_random_def)

text \<open>
  C2. \<^verbatim>\<open>seed\<close> sets the generator of the environment, which \<^verbatim>\<open>build_asci_art\<close> uses; \<^verbatim>\<open>step\<close>
  draws from the generator of the numpy module instead, which \<^verbatim>\<open>seed\<close> does not touch. Two
  runs that seed with 42, build the same game (side 3, density 0, stochasticity 1) and
  take the same step, but find the module's generator in different states, end on
  different cells and return different observations.
\<close>

theorem step_ignores_the_seed:
  "fst (make_game (snd (seed (\<lambda>s. const_source (nat s)) 0 (blank (const_source 0)) (Some 42)))
          3 0 1 False) = Inr () \<and>
   state (fst (snd (step (snd (make_game
       (snd (seed (\<lambda>s. const_source (nat s)) 0 (blank (const_source 0)) (Some 42)))
          3 0 1 False)) (const_source 0) 0))) = (1, 2) \<and>
   state (fst (snd (step (snd (make_game
       (snd (seed (\<lambda>s. const_source (nat s)) 0 (blank (const_source 0)) (Some 42)))
          3 0 1 False)) (const_source 1) 0))) = (2, 1) \<and>
   fst (step (snd (make_game
       (snd (seed (\<lambda>s. const_source (nat s)) 0 (blank (const_source 0)) (Some 42)))
          3 0 1 False)) (const_source 0) 0) \<noteq>
   fst (step (snd (make_game
       (snd (seed (\<lambda>s. const_source (nat s)) 0 (blank (const_source 0)) (Some 42)))
          3 0 1 False)) (const_source 1) 0)"
proof -
  define S where "S = snd (seed (\<lambda>s. const_source (nat s)) 0 (blank (const_source 0)) (Some 42))"
  have "(2::int) \<le> 3" "(3::int) = 2 \<or> ((0::real) \<le> 0 \<and> (0::real) \<le> 1)" by simp_all
  from make_game_wf [OF this, of S 1 False]
  obtain e where e: "make_game S 3 0 1 False = (Inr (), e)" "wf_env e" "gridsize e = 3"
    "stochasticity e = 1" "img_observation e = False" "state e = (3 - 1, 3 - 1)"
    by blast
  have a0: "ACTIONS (int 0 mod 4) = Some (- 1, 0)" and a1: "ACTIONS (int 1 mod 4) = Some (0, - 1)"
    by (simp_all add: ACTIONS_def)
  have m0: "state (move e (- 1, 0)) = (1, 2)" and m1: "state (move e (0, - 1)) = (2, 1)"
    by (simp_all add: move_eq e in_grid_def)
  from step_one_hot [OF e(2,4) _ a0, of 0] e(5)
  obtain out0 where s0: "step e (const_source 0) 0 =
      (Inr out0, move e (- 1, 0), (const_source 0)\<lparr>cursor := 2\<rparr>)"
    "obs out0 = OneHot ((replicate (nat (3 * 3)) 0)[nat (1 * 3 + 2) := 1])"
    by (auto simp: m0 e(3))
  from step_one_hot [OF e(2,4) _ a1, of 0] e(5)
  obtain out1 where s1: "step e (const_source 1) 0 =
      (Inr out1, move e (0, - 1), (const_source 1)\<lparr>cursor := 2\<rparr>)"
    "obs out1 = OneHot ((replicate (nat (3 * 3)) 0)[nat (2 * 3 + 1) := 1])"
    by (auto simp: m1 e(3))
  have "obs out0 \<noteq> obs out1"
    by (simp add: s0(2) s1(2) eval_nat_numeral)
  then have ne: "out0 \<noteq> out1" by auto
  show ?thesis
    unfolding S_def [symmetric]
    by (simp only: e(1) s0(1) s1(1) fst_conv snd_conv m0 m1) (simp add: ne)
qed

subsection \<open>The example environment is a generated one\<close>

lemma replicate_three:
  "(replicate 3 c)[Suc 0 := x] = [c, x, c]" "(replicate 3 c)[2 := x] = [c, c, x]"
  by (simp_all add: eval_nat_numeral)

lemma demo_cells:
  "build_asci_art \<lparr>tape = demo_tape, cursor = 0\<rparr> 3 (1 / 2) =
     (Inr '' G  #   P'', \<lparr>tape = demo_tape, cursor = 4\<rparr>)"
  by (simp add: build_asci_art_def randint_def next_raw_def py_setitem_def norm_index_def
      binomial1_def demo_tape_def upt_rec GOAL_CHAR_def PLAYER_CHAR_def OBSTACLE_CHAR_def
      replicate_three)

lemma demo_reshape: "reshape '' G  #   P'' 3 = Inr ['' G '', '' # '', ''  P'']"
  by (simp add: reshape_def eval_nat_numeral)

lemma demo_img:
  "art e = ['' G '', '' # '', ''  P''] \<Longrightarrow> gridsize e = 3 \<Longrightarrow>
   get_art_img e =
     Inr [[(0, 0, 0), (0, 1, 0), (0, 0, 0)], [(0, 0, 0), (0, 0, 1), (0, 0, 0)],
          [(0, 0, 0), (0, 0, 0), (0, 0, 0)]]"
  by (simp add: get_art_img_def art_cell_def cell_color_def FG_COLORS_def EMPTY_CHAR_def
      GOAL_CHAR_def PLAYER_CHAR_def OBSTACLE_CHAR_def eval_nat_numeral)

lemma demo_generated:
  "make_game (blank \<lparr>tape = demo_tape, cursor = 0\<rparr>) 3 (1 / 2) 0 False = (Inr (), demo)"
  by (simp add: make_game_def blank_def demo_cells demo_reshape demo_img argwhere_Cons
      argwhere_Nil GOAL_CHAR_def OBSTACLE_CHAR_def demo_def)

end
